theory Spec2Isabelle
  imports Complex_Main "HOL-Library.Char_ord" "HOL-Library.List_Lexorder"
begin

section \<open>Python strings as used by pypage\<close>

text \<open>
  The program is Python 2: a \<open>str\<close> is a byte string, modelled as \<open>string\<close>.
  Characters the source names by escape are given by their code.
\<close>

definition newline :: char where
  "newline = CHR 0x0A"

definition backslash :: char where
  "backslash = CHR 0x5C"

text \<open>\<open>str.strip()\<close> and \<open>str.split()\<close> without argument work on the
  six ASCII whitespace bytes.\<close>

definition isspace :: "char \<Rightarrow> bool" where
  "isspace c = (c = CHR '' '' \<or> c = CHR 0x09 \<or> c = CHR 0x0A \<or> c = CHR 0x0B
     \<or> c = CHR 0x0C \<or> c = CHR 0x0D)"

text \<open>\<open>c.isalpha()\<close> and \<open>c.isalnum()\<close> for a byte, in the default C locale.\<close>

definition isalpha :: "char \<Rightarrow> bool" where
  "isalpha c = (let n = (of_char c :: nat) in (65 \<le> n \<and> n \<le> 90) \<or> (97 \<le> n \<and> n \<le> 122))"

definition isalnum :: "char \<Rightarrow> bool" where
  "isalnum c = (let n = (of_char c :: nat) in isalpha c \<or> (48 \<le> n \<and> n \<le> 57))"

definition strip :: "string \<Rightarrow> string" where
  "strip s = rev (dropWhile isspace (rev (dropWhile isspace s)))"

definition startswith :: "string \<Rightarrow> string \<Rightarrow> bool" where
  "startswith s p = (take (length p) s = p)"

definition endswith :: "string \<Rightarrow> string \<Rightarrow> bool" where
  "endswith s p = (length p \<le> length s \<and> drop (length s - length p) s = p)"

text \<open>\<open>s.split()\<close>: the maximal runs of non-whitespace, none of them empty.
  The first argument is the word being read.\<close>

fun split_ws_from :: "string \<Rightarrow> string \<Rightarrow> string list" where
  "split_ws_from w [] = (if w = [] then [] else [w])"
| "split_ws_from w (c # cs) =
     (if isspace c then (if w = [] then split_ws_from [] cs else w # split_ws_from [] cs)
      else split_ws_from (w @ [c]) cs)"

definition split_ws :: "string \<Rightarrow> string list" where
  "split_ws s = split_ws_from [] s"

text \<open>\<open>s.split(sep)\<close> for a one-character separator: always at least one piece.\<close>

fun split_on :: "char \<Rightarrow> string \<Rightarrow> string list" where
  "split_on sep [] = [[]]"
| "split_on sep (c # cs) =
     (if c = sep then [] # split_on sep cs
      else (case split_on sep cs of [] \<Rightarrow> [[c]] | p # ps \<Rightarrow> (c # p) # ps))"

text \<open>\<open>sep.join(parts)\<close>.\<close>

fun join_with :: "string \<Rightarrow> string list \<Rightarrow> string" where
  "join_with sep [] = []"
| "join_with sep [p] = p"
| "join_with sep (p # q # ps) = p @ sep @ join_with sep (q # ps)"

text \<open>\<open>xs.index(x)\<close>; \<open>None\<close> stands for the \<open>ValueError\<close> of a missing element.\<close>

fun index_of :: "'a \<Rightarrow> 'a list \<Rightarrow> nat option" where
  "index_of x [] = None"
| "index_of x (y # ys) =
     (if x = y then Some 0 else (case index_of x ys of None \<Rightarrow> None | Some k \<Rightarrow> Some (Suc k)))"

text \<open>\<open>first_true(function, sequence)\<close>: the first element satisfying the function,
  Python's \<open>None\<close> when there is none.\<close>

fun first_true :: "('a \<Rightarrow> bool) \<Rightarrow> 'a list \<Rightarrow> 'a option" where
  "first_true f [] = None"
| "first_true f (x # xs) = (if f x then Some x else first_true f xs)"

text \<open>\<open>isidentifier(s)\<close>: \<open>all\<close> over the test of the first character (false for the
  empty string) followed by the test of every character.\<close>

definition isidentifier :: "string \<Rightarrow> bool" where
  "isidentifier s =
     list_all (\<lambda>b. b)
       ((s \<noteq> [] \<and> (isalpha (hd s) \<or> hd s = CHR ''_''))
          # map (\<lambda>c. isalnum c \<or> c = CHR ''_'') s)"

section \<open>Nodes and errors\<close>

text \<open>A source position is the pair \<open>(line, column)\<close> built by the lexer.\<close>

type_synonym loc = "nat \<times> nat"

text \<open>
  The classes \<open>RootNode\<close>, \<open>TextNode\<close>, \<open>CodeNode\<close> and \<open>TagNode\<close> with its
  subclasses. A \<open>TagNode\<close> is \<open>PlainTag\<close> while the lexer accumulates its body and is
  replaced by an instance of a subclass when its closing delimiter is read.
  \<open>ForTag\<close> carries \<open>targets\<close> and \<open>genexpr\<close>; \<open>WhileTag\<close> carries \<open>expr\<close>,
  \<open>dofirst\<close> and \<open>slow\<close>.
\<close>

datatype tag_kind =
    PlainTag
  | ForTag "string list" string
  | WhileTag string bool bool
  | CommentTag
  | CloseTag

datatype node =
    RootNode "node list"
  | TextNode string
  | CodeNode string loc
  | TagNode tag_kind string loc "node list"

text \<open>
  The exceptions. A \<open>PypageSyntaxError\<close> keeps only its description, which is formatted
  from the delimiters, body and position of the node it is built from, so each syntax
  error carries exactly those. \<open>PyError\<close> is any other Python exception, by name.
\<close>

datatype exn =
    IncompleteDelimitedNode string string loc
  | MultiLineTag loc
  | UnboundCloseTag string loc
  | UnclosedTag string loc
  | IncorrectForTag string
  | UnknownTag string
  | TypeError
  | KeyError string
  | StopIteration
  | AssertionError
  | PyError string

fun node_src :: "node \<Rightarrow> string" where
  "node_src (RootNode cs) = []"
| "node_src (TextNode s) = s"
| "node_src (CodeNode s l) = s"
| "node_src (TagNode k s l cs) = s"

fun node_loc :: "node \<Rightarrow> loc" where
  "node_loc (CodeNode s l) = l"
| "node_loc (TagNode k s l cs) = l"
| "node_loc n = (0, 0)"

fun children :: "node \<Rightarrow> node list" where
  "children (RootNode cs) = cs"
| "children (TagNode k s l cs) = cs"
| "children n = []"

text \<open>\<open>node.src += s\<close>.\<close>

fun add_src :: "node \<Rightarrow> string \<Rightarrow> node" where
  "add_src (TextNode s) t = TextNode (s @ t)"
| "add_src (CodeNode s l) t = CodeNode (s @ t) l"
| "add_src (TagNode k s l cs) t = TagNode k (s @ t) l cs"
| "add_src (RootNode cs) t = RootNode cs"

text \<open>\<open>node.children.append(tok)\<close>.\<close>

fun append_child :: "node \<Rightarrow> node \<Rightarrow> node" where
  "append_child (RootNode cs) c = RootNode (cs @ [c])"
| "append_child (TagNode k s l cs) c = TagNode k s l (cs @ [c])"
| "append_child n c = n"

fun is_TextNode :: "node \<Rightarrow> bool" where
  "is_TextNode (TextNode s) = True"
| "is_TextNode n = False"

fun is_RootNode :: "node \<Rightarrow> bool" where
  "is_RootNode (RootNode cs) = True"
| "is_RootNode n = False"

fun is_TagNode :: "node \<Rightarrow> bool" where
  "is_TagNode (TagNode k s l cs) = True"
| "is_TagNode n = False"

fun is_CloseTag :: "node \<Rightarrow> bool" where
  "is_CloseTag (TagNode CloseTag s l cs) = True"
| "is_CloseTag n = False"

text \<open>\<open>isinstance(node, DelimitedNode)\<close>: a code node or a tag node.\<close>

fun is_DelimitedNode :: "node \<Rightarrow> bool" where
  "is_DelimitedNode (CodeNode s l) = True"
| "is_DelimitedNode (TagNode k s l cs) = True"
| "is_DelimitedNode n = False"

fun open_delim :: "node \<Rightarrow> string" where
  "open_delim (CodeNode s l) = ''{{''"
| "open_delim (TagNode k s l cs) = ''{%''"
| "open_delim n = []"

fun close_delim :: "node \<Rightarrow> string" where
  "close_delim (CodeNode s l) = ''}}''"
| "close_delim (TagNode k s l cs) = ''%}''"
| "close_delim n = []"

section \<open>The tag classes\<close>

subsection \<open>Identification\<close>

datatype tag_class = ForTagC | CloseTagC | WhileTagC | CommentTagC

text \<open>The static method \<open>identify\<close> of each class.\<close>

fun identify :: "tag_class \<Rightarrow> string \<Rightarrow> bool" where
  "identify ForTagC src = startswith (strip src) ''for ''"
| "identify CloseTagC src = (strip src = [])"
| "identify WhileTagC src = startswith (strip src) ''while ''"
| "identify CommentTagC src = startswith (strip src) ''comment''"

text \<open>The list \<open>tagNodeTypes\<close> of \<open>lex\<close>, in its order.\<close>

definition tagNodeTypes :: "tag_class list" where
  "tagNodeTypes = [ForTagC, CloseTagC, WhileTagC, CommentTagC]"

text \<open>\<open>first_true(lambda t: t.identify(node.src), tagNodeTypes)\<close>.\<close>

definition classify :: "string \<Rightarrow> tag_class option" where
  "classify src = first_true (\<lambda>t. identify t src) tagNodeTypes"

subsection \<open>The for tag's targets\<close>

text \<open>
  The loop of \<open>ForTag._find_targets\<close>. \<open>tokens\<close> is the list still to be scanned and
  \<open>targets\<close> the identifiers gathered so far (a set in the source: it is sorted and
  freed of duplicates at the end). Either \<open>index\<close> failing leaves the loop. The slice
  \<open>tokens[for_index + 1 : in_index]\<close> is empty when \<open>in\<close> comes first.
\<close>

function find_targets_loop :: "string list \<Rightarrow> string list \<Rightarrow> string list" where
  "find_targets_loop tokens targets =
     (if tokens = [] then targets
      else (case index_of ''for'' tokens of
              None \<Rightarrow> targets
            | Some for_index \<Rightarrow>
               (case index_of ''in'' tokens of
                  None \<Rightarrow> targets
                | Some in_index \<Rightarrow>
                    (let target_list_str =
                           concat (take (in_index - (for_index + 1)) (drop (for_index + 1) tokens));
                         tokens' = drop (in_index + 1) tokens;
                         target_list =
                           map (filter (\<lambda>c. isalnum c \<or> c = CHR ''_''))
                             (split_on CHR '','' target_list_str);
                         target_set = filter isidentifier target_list
                     in find_targets_loop tokens' (targets @ target_set)))))"
  by pat_completeness auto
termination
  by (relation "measure (\<lambda>(tokens, targets). length tokens)") auto

declare find_targets_loop.simps [simp del]

text \<open>
  \<open>ForTag._find_targets\<close>. With no target the source executes
  \<open>raise IncorrectForTag\<close>: the class, with no argument. Python 2 then instantiates the
  class with an empty argument list, and \<open>IncorrectForTag.__init__(self, node)\<close> requires
  \<open>node\<close>, so the exception that leaves the statement is the \<open>TypeError\<close> of that call.
\<close>

definition find_targets :: "string \<Rightarrow> exn + string list" where
  "find_targets src =
     (let targets = find_targets_loop (split_ws src) []
      in if targets = [] then Inl TypeError
         else Inr (sort (remdups targets)))"

text \<open>\<open>ForTag._construct_generator_expression\<close>:
  \<open>"((%s) %s)" % (', '.join(self.targets), self.src)\<close>.\<close>

definition construct_generator_expression :: "string list \<Rightarrow> string \<Rightarrow> string" where
  "construct_generator_expression targets src =
     ''(('' @ join_with '', '' targets @ '') '' @ src @ '')''"

subsection \<open>The constructors\<close>

text \<open>\<open>ForTag.__init__(node)\<close>: the body is stripped, the assertion holds for a node the
  class identified, and the targets may raise.\<close>

definition ForTag_init :: "node \<Rightarrow> exn + node" where
  "ForTag_init node =
     (let src = strip (node_src node)
      in if \<not> identify ForTagC src then Inl AssertionError
         else (case find_targets src of
                 Inl e \<Rightarrow> Inl e
               | Inr targets \<Rightarrow>
                   Inr (TagNode (ForTag targets (construct_generator_expression targets src))
                          src (node_loc node) [])))"

text \<open>\<open>WhileTag.__init__(node)\<close>: the expression after \<open>while \<close>, an optional leading
  \<open>dofirst \<close> and an optional trailing \<open>slow\<close>.\<close>

definition WhileTag_init :: "node \<Rightarrow> exn + node" where
  "WhileTag_init node =
     (let src = strip (node_src node)
      in if \<not> identify WhileTagC src then Inl AssertionError
         else
           (let expr0 = strip (drop (length ''while '') src);
                dofirst = startswith expr0 ''dofirst '';
                expr1 = (if dofirst then strip (drop (length ''dofirst '') expr0) else expr0);
                slow = endswith expr1 ''slow'';
                expr2 = (if slow then strip (take (length expr1 - length ''slow'') expr1) else expr1)
            in Inr (TagNode (WhileTag expr2 dofirst slow) src (node_loc node) [])))"

definition CommentTag_init :: "node \<Rightarrow> exn + node" where
  "CommentTag_init node =
     (let src = strip (node_src node)
      in if \<not> identify CommentTagC src then Inl AssertionError
         else Inr (TagNode CommentTag src (node_loc node) []))"

text \<open>\<open>CloseTag.__init__(node)\<close> keeps the body as it is.\<close>

definition CloseTag_init :: "node \<Rightarrow> exn + node" where
  "CloseTag_init node = Inr (TagNode CloseTag (node_src node) (node_loc node) [])"

text \<open>\<open>nodeType(node)\<close> for the class found.\<close>

fun construct :: "tag_class \<Rightarrow> node \<Rightarrow> exn + node" where
  "construct ForTagC node = ForTag_init node"
| "construct CloseTagC node = CloseTag_init node"
| "construct WhileTagC node = WhileTag_init node"
| "construct CommentTagC node = CommentTag_init node"

section \<open>The lexer\<close>

text \<open>
  The variables of the loop of \<open>lex\<close>: the index \<open>i\<close>, the line counter \<open>line\<close>, the
  index \<open>line_i\<close>, the node being accumulated (\<open>None\<close> between nodes) and the tokens
  appended so far.
\<close>

record lex_state =
  ls_i :: nat
  ls_line :: nat
  ls_line_i :: nat
  ls_node :: "node option"
  ls_tokens :: "node list"

text \<open>The dictionary \<open>open_delims\<close>: the class to instantiate for an opening
  delimiter. A fresh delimited node has an empty body; a fresh tag has no children.\<close>

definition open_delims :: "string \<Rightarrow> (loc \<Rightarrow> node) option" where
  "open_delims c2 =
     (if c2 = ''{{'' then Some (\<lambda>l. CodeNode [] l)
      else if c2 = ''{%'' then Some (\<lambda>l. TagNode PlainTag [] l [])
      else None)"

text \<open>\<open>open_delims[c2]((line, c_pos_in_line))\<close>, where \<open>c2\<close> is a key.\<close>

definition open_node :: "string \<Rightarrow> loc \<Rightarrow> node option" where
  "open_node c2 l = (case open_delims c2 of None \<Rightarrow> None | Some mk \<Rightarrow> Some (mk l))"

text \<open>
  One pass through the body of the \<open>while\<close> loop of \<open>lex\<close>, for \<open>i < len(src) - 1\<close>.
  The tests come in the order of the source: an opening delimiter outside any node;
  a text node begun where there is none; an opening delimiter in a text node; the
  closing delimiter of a delimited node (where a tag is checked and specialised);
  an escaped brace; and, last, the plain character, two of them at the end of input.
\<close>

definition lex_step :: "string \<Rightarrow> lex_state \<Rightarrow> exn + lex_state" where
  "lex_step src st0 =
     (let i = ls_i st0;
          c = src ! i;
          c2 = [src ! i, src ! (i + 1)];
          line = (if c = newline then ls_line st0 + 1 else ls_line st0);
          line_i = (if c = newline then i else ls_line_i st0);
          c_pos_in_line = i - line_i;
          st = st0\<lparr>ls_line := line, ls_line_i := line_i\<rparr>
      in
        if ls_node st = None \<and> open_node c2 (line, c_pos_in_line) \<noteq> None then
          Inr (st\<lparr>ls_node := open_node c2 (line, c_pos_in_line), ls_i := i + 2\<rparr>)
        else
          (let node = (case ls_node st of None \<Rightarrow> TextNode [] | Some n \<Rightarrow> n)
           in
             if is_TextNode node \<and> open_node c2 (line, c_pos_in_line) \<noteq> None then
               Inr (st\<lparr>ls_tokens := ls_tokens st @ [node],
                       ls_node := open_node c2 (line, c_pos_in_line), ls_i := i + 2\<rparr>)
             else if is_DelimitedNode node \<and> c2 = close_delim node then
               (if is_TagNode node then
                  (if newline \<in> set (node_src node) then Inl (MultiLineTag (node_loc node))
                   else
                     (case classify (node_src node) of
                        None \<Rightarrow> Inl (UnknownTag (node_src node))
                      | Some nodeType \<Rightarrow>
                          (case construct nodeType node of
                             Inl e \<Rightarrow> Inl e
                           | Inr node' \<Rightarrow>
                               Inr (st\<lparr>ls_tokens := ls_tokens st @ [node'],
                                       ls_node := None, ls_i := i + 2\<rparr>))))
                else
                  Inr (st\<lparr>ls_tokens := ls_tokens st @ [node], ls_node := None, ls_i := i + 2\<rparr>))
             else if c2 = [backslash, CHR ''{''] \<or> c2 = [backslash, CHR ''}''] then
               Inr (st\<lparr>ls_node := Some (add_src node [c2 ! 1]), ls_i := i + 2\<rparr>)
             else if i + 2 < length src then
               Inr (st\<lparr>ls_node := Some (add_src node [c]), ls_i := i + 1\<rparr>)
             else
               Inr (st\<lparr>ls_node := Some (add_src node c2), ls_i := i + 2\<rparr>)))"

lemma lex_step_advances: "lex_step src st = Inr st' \<Longrightarrow> ls_i st < ls_i st'"
  by (auto simp: lex_step_def Let_def split: if_splits option.splits sum.splits)

text \<open>The loop \<open>while i < len(src) - 1\<close>: an error leaves it at once.\<close>

function lex_loop :: "string \<Rightarrow> lex_state \<Rightarrow> exn + lex_state" where
  "lex_loop src st =
     (if ls_i st + 1 < length src then
        (case lex_step src st of Inl e \<Rightarrow> Inl e | Inr st' \<Rightarrow> lex_loop src st')
      else Inr st)"
  by pat_completeness auto
termination
  by (relation "measure (\<lambda>(src, st). length src - ls_i st)")
     (auto dest: lex_step_advances)

declare lex_loop.simps [simp del]

definition lex_init :: lex_state where
  "lex_init = \<lparr>ls_i = 0, ls_line = 1, ls_line_i = 0, ls_node = None, ls_tokens = []\<rparr>"

text \<open>\<open>lex(src)\<close>: after the loop a pending text node is appended and a pending
  delimited node is an error.\<close>

definition lex_src :: "string \<Rightarrow> exn + node list" where
  "lex_src src =
     (case lex_loop src lex_init of
        Inl e \<Rightarrow> Inl e
      | Inr st \<Rightarrow>
          (case ls_node st of
             None \<Rightarrow> Inr (ls_tokens st)
           | Some node \<Rightarrow>
               if is_TextNode node then Inr (ls_tokens st @ [node])
               else Inl (IncompleteDelimitedNode (close_delim node) (open_delim node)
                          (node_loc node))))"

section \<open>The tree builder\<close>

text \<open>
  \<open>build_tree(node, tokens)\<close> consumes the iterator \<open>tokens\<close> and appends to
  \<open>node.children\<close>; here it returns the node with its children and the tokens left.
  \<open>next(tokens)\<close> on the exhausted iterator raises \<open>StopIteration\<close>, caught by the
  handler that raises \<open>UnclosedTag\<close> unless the node is the root. \<open>CloseTag\<close> is tested
  before \<open>TagNode\<close>, of which it is a subclass.
\<close>

function (domintros) build_tree :: "node \<Rightarrow> node list \<Rightarrow> exn + (node \<times> node list)" where
  "build_tree node [] =
     (if \<not> is_RootNode node then Inl (UnclosedTag (node_src node) (node_loc node))
      else Inr (node, []))"
| "build_tree node (tok # tokens) =
     (if is_CloseTag tok then
        (if is_TagNode node then Inr (node, tokens)
         else Inl (UnboundCloseTag (node_src tok) (node_loc tok)))
      else if is_TagNode tok then
        (case build_tree tok tokens of
           Inl e \<Rightarrow> Inl e
         | Inr (tok', tokens') \<Rightarrow> build_tree (append_child node tok') tokens')
      else build_tree (append_child node tok) tokens)"
  by pat_completeness auto


lemma build_tree_rest_length:
  "build_tree_dom (node, tokens) \<Longrightarrow> build_tree node tokens = Inr (node', rest)
     \<Longrightarrow> length rest \<le> length tokens"
proof (induction node tokens arbitrary: node' rest rule: build_tree.pinduct)
  case (1 node)
  then show ?case by (simp add: build_tree.psimps split: if_splits)
next
  case (2 node tok tokens)
  note dom = "2.hyps"
  note res = "2.prems"
  show ?case
  proof (cases "is_CloseTag tok")
    case True
    with dom res show ?thesis by (auto simp: build_tree.psimps split: if_splits)
  next
    case notclose: False
    show ?thesis
    proof (cases "is_TagNode tok")
      case True
      with notclose dom res obtain tok' tokens' where
        inner: "build_tree tok tokens = Inr (tok', tokens')" and
        outer: "build_tree (append_child node tok') tokens' = Inr (node', rest)"
        by (auto simp: build_tree.psimps split: sum.splits)
      from "2.IH"(1) [OF notclose True inner] have "length tokens' \<le> length tokens" .
      moreover from "2.IH"(2) [OF notclose True inner refl outer]
      have "length rest \<le> length tokens'" .
      ultimately show ?thesis by simp
    next
      case False
      with notclose dom res have "build_tree (append_child node tok) tokens = Inr (node', rest)"
        by (simp add: build_tree.psimps)
      from "2.IH"(3) [OF notclose False this] show ?thesis by simp
    qed
  qed
qed

termination build_tree
proof (relation "measure (\<lambda>(node, tokens). length tokens)", goal_cases)
  case 1
  show ?case by simp
next
  case (2 tok node tokens)
  show ?case by simp
next
  case (3 tok node tokens x2 x y)
  then show ?case using build_tree_rest_length by fastforce
next
  case (4 tok node tokens)
  show ?case by simp
qed

text \<open>\<open>parse(src)\<close>.\<close>

definition parse :: "string \<Rightarrow> exn + node" where
  "parse src =
     (case lex_src src of
        Inl e \<Rightarrow> Inl e
      | Inr tokens \<Rightarrow>
          (case build_tree (RootNode []) tokens of
             Inl e \<Rightarrow> Inl e
           | Inr (tree, rest) \<Rightarrow> Inr tree))"

section \<open>The execution engine\<close>

subsection \<open>The evaluator\<close>

text \<open>
  Python's \<open>eval\<close>, \<open>exec\<close> and object model are outside the program; they are the
  parameter \<open>ev\<close> of the engine, over any type \<open>'v\<close> of Python values. The environment
  \<open>pe.env\<close> is a dictionary from names to values. Evaluation may change the
  environment, also when it raises, so every call returns the environment with its
  result.
  \<^item> \<open>ev_eval code env\<close> is \<open>eval(code, env)\<close>.
  \<^item> \<open>ev_exec code env\<close> is the three statements of the block branch of
    \<open>PypageExec.run\<close>: it returns what the block passed to \<open>write\<close>.
  \<^item> \<open>ev_str\<close> and \<open>ev_truth\<close> are \<open>str(v)\<close> and the truth value a \<open>while\<close> tests.
  \<^item> \<open>ev_next gen env\<close> is \<open>next(gen)\<close>: the item and the generator advanced, or the
    exception raised, \<open>StopIteration\<close> on exhaustion.
  \<^item> \<open>ev_iter v\<close> lists the elements \<open>zip\<close> reads from \<open>v\<close>, or raises.
  \<^item> \<open>ev_time k\<close> is what the \<open>k\<close>-th call of \<open>time.time()\<close> returns, in seconds.
  \<^item> \<open>ev_None\<close>, \<open>ev_builtin\<close>, \<open>ev_write\<close> and \<open>ev_string\<close> are the values
    \<open>PypageExec.__init__\<close> binds: \<open>None\<close>, the module \<open>__builtin__\<close>, the bound method
    \<open>self.write\<close> and a string.
\<close>

type_synonym 'v env = "string \<rightharpoonup> 'v"

record 'v evaluator =
  ev_eval :: "string \<Rightarrow> 'v env \<Rightarrow> (exn + 'v) \<times> 'v env"
  ev_exec :: "string \<Rightarrow> 'v env \<Rightarrow> (exn + string) \<times> 'v env"
  ev_str :: "'v \<Rightarrow> string"
  ev_truth :: "'v \<Rightarrow> bool"
  ev_next :: "'v \<Rightarrow> 'v env \<Rightarrow> (exn + 'v \<times> 'v) \<times> 'v env"
  ev_iter :: "'v \<Rightarrow> exn + 'v list"
  ev_time :: "nat \<Rightarrow> real"
  ev_None :: 'v
  ev_builtin :: 'v
  ev_write :: 'v
  ev_string :: "string \<Rightarrow> 'v"

text \<open>
  What execution changes: the environment, the number of calls of \<open>time.time()\<close> made
  so far, and the lines printed. In \<open>execute\<close> the environment is the dictionary that
  is the default value of the parameter \<open>env\<close> of \<open>PypageExec.__init__\<close>: Python creates
  it once, when the \<open>def\<close> statement runs, and every call without \<open>env\<close> receives that
  same object.
\<close>

record 'v state =
  env :: "'v env"
  time_reads :: nat
  stdout :: "string list"

text \<open>\<open>PypageExec.__init__(env, name)\<close> stores five keys in the dictionary it is given.\<close>

definition PypageExec_init :: "'v evaluator \<Rightarrow> 'v env \<Rightarrow> string \<Rightarrow> 'v env" where
  "PypageExec_init ev e name =
     e(''__builtins__'' \<mapsto> ev_builtin ev,
       ''__package__'' \<mapsto> ev_None ev,
       ''__name__'' \<mapsto> ev_string ev name,
       ''__doc__'' \<mapsto> ev_None ev,
       ''write'' \<mapsto> ev_write ev)"

text \<open>\<open>PypageExec.run(code)\<close>: a block when the code has a newline or a semicolon,
  an expression otherwise.\<close>

definition pe_run :: "'v evaluator \<Rightarrow> string \<Rightarrow> 'v state \<Rightarrow> (exn + string) \<times> 'v state" where
  "pe_run ev code st =
     (if newline \<in> set code \<or> CHR '';'' \<in> set code then
        (case ev_exec ev code (env st) of (r, e') \<Rightarrow> (r, st\<lparr>env := e'\<rparr>))
      else
        (case ev_eval ev code (env st) of
           (Inl e, e') \<Rightarrow> (Inl e, st\<lparr>env := e'\<rparr>)
         | (Inr v, e') \<Rightarrow> (Inr (ev_str ev v), st\<lparr>env := e'\<rparr>)))"

text \<open>\<open>PypageExec.raw_eval(code)\<close>, with its assertion.\<close>

definition raw_eval :: "'v evaluator \<Rightarrow> string \<Rightarrow> 'v state \<Rightarrow> (exn + 'v) \<times> 'v state" where
  "raw_eval ev code st =
     (if newline \<in> set code then (Inl AssertionError, st)
      else (case ev_eval ev code (env st) of (r, e') \<Rightarrow> (r, st\<lparr>env := e'\<rparr>)))"

text \<open>\<open>pe.env.update(...)\<close> with the pairs of \<open>zip(self.targets, next(gen))\<close>.\<close>

definition dict_update :: "'v env \<Rightarrow> (string \<times> 'v) list \<Rightarrow> 'v env" where
  "dict_update e kvs = fold (\<lambda>(k, v) m. m(k \<mapsto> v)) kvs e"

text \<open>\<open>for target in self.targets: del pe.env[target]\<close>: deleting a missing key raises
  \<open>KeyError\<close>, the keys before it already deleted.\<close>

fun del_targets :: "string list \<Rightarrow> 'v env \<Rightarrow> (exn + unit) \<times> 'v env" where
  "del_targets [] e = (Inr (), e)"
| "del_targets (t # ts) e =
     (if e t = None then (Inl (KeyError t), e) else del_targets ts (e(t := None)))"

text \<open>The line the while tag prints when it gives up.\<close>

definition loop_terminated :: "string \<Rightarrow> string" where
  "loop_terminated expr = ''Loop '' @ [CHR 0x27] @ expr @ [CHR 0x27] @ '' terminated.''"

subsection \<open>The tree walk\<close>

text \<open>
  The loops of \<open>ForTag.run\<close> and \<open>WhileTag.run\<close> may run forever, so the walk takes
  fuel, one unit for every call, and \<open>None\<close> says that the fuel ran out. A result is the
  text returned or the exception raised, with the state reached.
  \<^item> \<open>exec_children\<close> is the \<open>for\<close> loop of \<open>exec_tree\<close>, with \<open>output\<close> so far.
  \<^item> \<open>exec_node\<close> is the body of that loop for one node; \<open>node.run(pe)\<close> is
    \<open>TagNode.run\<close>, which raises, unless the subclass overrides it.
  \<^item> \<open>ForTag_loop\<close> is the \<open>while True\<close> loop of \<open>ForTag.run\<close>. Its \<open>try\<close> block holds
    \<open>next(gen)\<close>, the \<open>zip\<close>, the update and the call of \<open>exec_tree\<close>, and its handler
    breaks on \<open>StopIteration\<close> from any of them.
  \<^item> \<open>WhileTag_loop\<close> is the \<open>while\<close> loop of \<open>WhileTag.run\<close>; \<open>t0\<close> is
    \<open>loop_start_time\<close>.
\<close>


function (sequential) exec_children ::
    "'v evaluator \<Rightarrow> nat \<Rightarrow> node list \<Rightarrow> string \<Rightarrow> 'v state \<Rightarrow> ((exn + string) \<times> 'v state) option"
  and exec_node ::
    "'v evaluator \<Rightarrow> nat \<Rightarrow> node \<Rightarrow> 'v state \<Rightarrow> ((exn + string) \<times> 'v state) option"
  and ForTag_loop ::
    "'v evaluator \<Rightarrow> nat \<Rightarrow> string list \<Rightarrow> node list \<Rightarrow> 'v \<Rightarrow> string \<Rightarrow> 'v state
       \<Rightarrow> ((exn + string) \<times> 'v state) option"
  and WhileTag_loop ::
    "'v evaluator \<Rightarrow> nat \<Rightarrow> string \<Rightarrow> bool \<Rightarrow> node list \<Rightarrow> real \<Rightarrow> string \<Rightarrow> 'v state
       \<Rightarrow> ((exn + string) \<times> 'v state) option"
where
  "exec_children ev 0 nodes output st = None"
| "exec_children ev (Suc n) [] output st = Some (Inr output, st)"
| "exec_children ev (Suc n) (node # nodes) output st =
     (case exec_node ev n node st of
        None \<Rightarrow> None
      | Some (Inl e, st') \<Rightarrow> Some (Inl e, st')
      | Some (Inr out, st') \<Rightarrow> exec_children ev n nodes (output @ out) st')"
| "exec_node ev 0 node st = None"
| "exec_node ev (Suc n) node st =
     (case node of
        RootNode cs \<Rightarrow> Some (Inr [], st)
      | TextNode src \<Rightarrow> Some (Inr src, st)
      | CodeNode src l \<Rightarrow> Some (pe_run ev src st)
      | TagNode kind src l kids \<Rightarrow>
          (case kind of
             PlainTag \<Rightarrow> Some (Inl (PyError ''Exception''), st)
           | CloseTag \<Rightarrow> Some (Inl (PyError ''Exception''), st)
           | CommentTag \<Rightarrow> Some (Inr [], st)
           | ForTag targets genexpr \<Rightarrow>
               (let backup = env st |` set targets
                in case raw_eval ev genexpr st of
                     (Inl e, st1) \<Rightarrow> Some (Inl e, st1)
                   | (Inr gen, st1) \<Rightarrow>
                       (case ForTag_loop ev n targets kids gen [] st1 of
                          None \<Rightarrow> None
                        | Some (Inl e, st2) \<Rightarrow> Some (Inl e, st2)
                        | Some (Inr output, st2) \<Rightarrow>
                            (case del_targets targets (env st2) of
                               (Inl e, e') \<Rightarrow> Some (Inl e, st2\<lparr>env := e'\<rparr>)
                             | (Inr u, e') \<Rightarrow> Some (Inr output, st2\<lparr>env := e' ++ backup\<rparr>))))
           | WhileTag expr dofirst slow \<Rightarrow>
               (case (if dofirst then exec_children ev n kids [] st else Some (Inr [], st)) of
                  None \<Rightarrow> None
                | Some (Inl e, st1) \<Rightarrow> Some (Inl e, st1)
                | Some (Inr output, st1) \<Rightarrow>
                    WhileTag_loop ev n expr slow kids (ev_time ev (time_reads st1)) output
                      (st1\<lparr>time_reads := time_reads st1 + 1\<rparr>))))"
| "ForTag_loop ev 0 targets kids gen output st = None"
| "ForTag_loop ev (Suc n) targets kids gen output st =
     (case ev_next ev gen (env st) of
        (Inl e, e1) \<Rightarrow>
          (if e = StopIteration then Some (Inr output, st\<lparr>env := e1\<rparr>)
           else Some (Inl e, st\<lparr>env := e1\<rparr>))
      | (Inr (item, gen'), e1) \<Rightarrow>
          (case ev_iter ev item of
             Inl e \<Rightarrow>
               (if e = StopIteration then Some (Inr output, st\<lparr>env := e1\<rparr>)
                else Some (Inl e, st\<lparr>env := e1\<rparr>))
           | Inr vals \<Rightarrow>
               (case exec_children ev n kids [] (st\<lparr>env := dict_update e1 (zip targets vals)\<rparr>) of
                  None \<Rightarrow> None
                | Some (Inl e, st') \<Rightarrow>
                    (if e = StopIteration then Some (Inr output, st') else Some (Inl e, st'))
                | Some (Inr out, st') \<Rightarrow> ForTag_loop ev n targets kids gen' (output @ out) st')))"
| "WhileTag_loop ev 0 expr slow kids t0 output st = None"
| "WhileTag_loop ev (Suc n) expr slow kids t0 output st =
     (case raw_eval ev expr st of
        (Inl e, st1) \<Rightarrow> Some (Inl e, st1)
      | (Inr v, st1) \<Rightarrow>
          (if \<not> ev_truth ev v then Some (Inr output, st1)
           else
             (case exec_children ev n kids [] st1 of
                None \<Rightarrow> None
              | Some (Inl e, st2) \<Rightarrow> Some (Inl e, st2)
              | Some (Inr out, st2) \<Rightarrow>
                  (if slow then WhileTag_loop ev n expr slow kids t0 (output @ out) st2
                   else
                     (let t = ev_time ev (time_reads st2);
                          st3 = st2\<lparr>time_reads := time_reads st2 + 1\<rparr>
                      in if t - t0 > 2 then
                           Some (Inr (output @ out),
                                 st3\<lparr>stdout := stdout st3 @ [loop_terminated expr]\<rparr>)
                         else WhileTag_loop ev n expr slow kids t0 (output @ out) st3)))))"
  by pat_completeness auto
termination
  by (relation "measure (case_sum (case_sum (\<lambda>(ev, n, r). n) (\<lambda>(ev, n, r). n))
                                  (case_sum (\<lambda>(ev, n, r). n) (\<lambda>(ev, n, r). n)))")
     auto

text \<open>\<open>exec_tree(parent_node, pe)\<close>.\<close>

definition exec_tree ::
    "'v evaluator \<Rightarrow> nat \<Rightarrow> node \<Rightarrow> 'v state \<Rightarrow> ((exn + string) \<times> 'v state) option" where
  "exec_tree ev fuel parent_node st = exec_children ev fuel (children parent_node) [] st"

text \<open>
  \<open>execute(src)\<close>: a syntax error leaves \<open>parse\<close> before \<open>PypageExec()\<close> is reached;
  otherwise \<open>PypageExec()\<close> writes its five keys into the default dictionary, the tree
  is walked, and the output is printed.
\<close>

definition execute ::
    "'v evaluator \<Rightarrow> nat \<Rightarrow> string \<Rightarrow> 'v state \<Rightarrow> ((exn + unit) \<times> 'v state) option" where
  "execute ev fuel src st =
     (case parse src of
        Inl e \<Rightarrow> Some (Inl e, st)
      | Inr tree \<Rightarrow>
          (case exec_tree ev fuel tree
                  (st\<lparr>env := PypageExec_init ev (env st) ''pypage_transient''\<rparr>) of
             None \<Rightarrow> None
           | Some (Inl e, st') \<Rightarrow> Some (Inl e, st')
           | Some (Inr output, st') \<Rightarrow> Some (Inr (), st'\<lparr>stdout := stdout st' @ [output]\<rparr>)))"

section \<open>Notions used to state the properties\<close>

subsection \<open>The states of the lexer's loop\<close>

text \<open>The states in which the loop of \<open>lex\<close> tests its condition: the initial one, and
  the one after each pass that raised nothing.\<close>

inductive lex_reach :: "string \<Rightarrow> lex_state \<Rightarrow> bool" for src :: string where
  lex_reach_init: "lex_reach src lex_init"
| lex_reach_step:
    "lex_reach src st \<Longrightarrow> ls_i st + 1 < length src \<Longrightarrow> lex_step src st = Inr st'
       \<Longrightarrow> lex_reach src st'"

text \<open>An escaped brace stands at index \<open>j\<close>: a backslash followed by \<open>{\<close> or \<open>}\<close>.\<close>

definition escape_at :: "string \<Rightarrow> nat \<Rightarrow> bool" where
  "escape_at src j =
     (j + 1 < length src \<and> src ! j = backslash
        \<and> (src ! (j + 1) = CHR ''{'' \<or> src ! (j + 1) = CHR ''}''))"

text \<open>The node a pass works on: the current node, or the text node it begins.\<close>

definition current_node :: "lex_state \<Rightarrow> node" where
  "current_node st = (case ls_node st of None \<Rightarrow> TextNode [] | Some n \<Rightarrow> n)"

text \<open>The state after the line accounting at the head of a pass, the position a node
  opened in the pass is given, and the two characters \<open>c2\<close>.\<close>

definition count_line :: "string \<Rightarrow> lex_state \<Rightarrow> lex_state" where
  "count_line src st =
     st\<lparr>ls_line := (if src ! ls_i st = newline then ls_line st + 1 else ls_line st),
        ls_line_i := (if src ! ls_i st = newline then ls_i st else ls_line_i st)\<rparr>"

definition here :: "string \<Rightarrow> lex_state \<Rightarrow> loc" where
  "here src st = (ls_line (count_line src st), ls_i st - ls_line_i (count_line src st))"

definition pair_at :: "string \<Rightarrow> nat \<Rightarrow> string" where
  "pair_at src i = [src ! i, src ! (i + 1)]"

text \<open>No token made so far, nor the current node, has children.\<close>

definition childless :: "lex_state \<Rightarrow> bool" where
  "childless st = (list_all (\<lambda>t. children t = []) (ls_tokens st) \<and> children (current_node st) = [])"

text \<open>A source without opening delimiter and without escaped brace.\<close>

definition plain_text :: "string \<Rightarrow> bool" where
  "plain_text src =
     list_all (\<lambda>j. open_delims [src ! j, src ! (j + 1)] = None \<and> \<not> escape_at src j)
       [0 ..< length src - 1]"

subsection \<open>Balanced token streams\<close>

text \<open>
  \<open>forest_of tokens nodes\<close>: the tokens are the nodes in document order, where a tag
  is its opening token, the tokens of the children it gains, and one close marker.
  A close marker is never a node of the forest.
\<close>

inductive forest_of :: "node list \<Rightarrow> node list \<Rightarrow> bool" where
  forest_nil: "forest_of [] []"
| forest_leaf:
    "\<not> is_TagNode t \<Longrightarrow> forest_of ts ns \<Longrightarrow> forest_of (t # ts) (t # ns)"
| forest_tag:
    "k \<noteq> CloseTag \<Longrightarrow> forest_of ts1 kids \<Longrightarrow> is_CloseTag c \<Longrightarrow> forest_of ts2 ns
       \<Longrightarrow> forest_of (TagNode k s l cs # ts1 @ c # ts2) (TagNode k s l (cs @ kids) # ns)"

text \<open>\<open>open_prefix tokens\<close>: balanced stretches and opening tags in any order, so that
  no close marker of the tokens lacks its opening tag.\<close>

inductive open_prefix :: "node list \<Rightarrow> bool" where
  open_nil: "open_prefix []"
| open_forest: "forest_of b ns \<Longrightarrow> open_prefix p \<Longrightarrow> open_prefix (b @ p)"
| open_tag: "is_TagNode t \<Longrightarrow> \<not> is_CloseTag t \<Longrightarrow> open_prefix p \<Longrightarrow> open_prefix (t # p)"

text \<open>No close marker is a node of the tree, at any depth.\<close>

fun close_free :: "node \<Rightarrow> bool" where
  "close_free (RootNode cs) = (\<forall>c \<in> set cs. close_free c)"
| "close_free (TagNode k s l cs) = (k \<noteq> CloseTag \<and> (\<forall>c \<in> set cs. close_free c))"
| "close_free n = True"

text \<open>The node with further children appended.\<close>

definition add_children :: "node \<Rightarrow> node list \<Rightarrow> node" where
  "add_children node kids = fold (\<lambda>c n. append_child n c) kids node"

subsection \<open>A sample evaluator\<close>

text \<open>
  To run the engine on concrete templates, a fragment of Python: the values and the
  handful of expressions and statements the examples below use, with the results
  Python gives for them. A generator is the list of the items it has yet to yield.
\<close>

datatype pyval =
    PyNone
  | PyInt int
  | PyStr string
  | PyTuple "pyval list"
  | PyGen "pyval list"
  | PyModule string
  | PyMethod string

function str_nat :: "nat \<Rightarrow> string" where
  "str_nat n =
     (if n < 10 then [char_of (48 + n)] else str_nat (n div 10) @ [char_of (48 + n mod 10)])"
  by pat_completeness auto
termination
  by (relation "measure id") auto

declare str_nat.simps [simp del]

fun sample_str :: "pyval \<Rightarrow> string" where
  "sample_str PyNone = ''None''"
| "sample_str (PyInt i) = (if i < 0 then ''-'' @ str_nat (nat (- i)) else str_nat (nat i))"
| "sample_str (PyStr s) = s"
| "sample_str v = ''<object>''"

fun sample_truth :: "pyval \<Rightarrow> bool" where
  "sample_truth PyNone = False"
| "sample_truth (PyInt i) = (i \<noteq> 0)"
| "sample_truth (PyStr s) = (s \<noteq> [])"
| "sample_truth (PyTuple vs) = (vs \<noteq> [])"
| "sample_truth v = True"

fun sample_next :: "pyval \<Rightarrow> pyval env \<Rightarrow> (exn + pyval \<times> pyval) \<times> pyval env" where
  "sample_next (PyGen []) e = (Inl StopIteration, e)"
| "sample_next (PyGen (v # vs)) e = (Inr (v, PyGen vs), e)"
| "sample_next v e = (Inl TypeError, e)"

fun sample_iter :: "pyval \<Rightarrow> exn + pyval list" where
  "sample_iter (PyTuple vs) = Inr vs"
| "sample_iter (PyStr s) = Inr (map (\<lambda>c. PyStr [c]) s)"
| "sample_iter v = Inl TypeError"

definition sample_eval :: "string \<Rightarrow> pyval env \<Rightarrow> (exn + pyval) \<times> pyval env" where
  "sample_eval code e =
     (if code = ''next(iter([]))'' then (Inl StopIteration, e)
      else if code = ''((x) for x in [])'' then (Inr (PyGen []), e)
      else if code = ''((x) for x in [(1,)])'' then (Inr (PyGen [PyTuple [PyInt 1]]), e)
      else (case e code of
              Some v \<Rightarrow> (Inr v, e)
            | None \<Rightarrow> (Inl (PyError ''NameError''), e)))"

definition sample_exec :: "string \<Rightarrow> pyval env \<Rightarrow> (exn + string) \<times> pyval env" where
  "sample_exec code e =
     (if code = ''x = 1;'' then (Inr [], e(''x'' \<mapsto> PyInt 1))
      else if code = ''write = 5;'' then (Inr [], e(''write'' \<mapsto> PyInt 5))
      else (Inl (PyError ''SyntaxError''), e))"

definition sample_ev :: "pyval evaluator" where
  "sample_ev =
     \<lparr>ev_eval = sample_eval, ev_exec = sample_exec, ev_str = sample_str,
      ev_truth = sample_truth, ev_next = sample_next, ev_iter = sample_iter,
      ev_time = (\<lambda>k. 0), ev_None = PyNone, ev_builtin = PyModule ''__builtin__'',
      ev_write = PyMethod ''write'', ev_string = PyStr\<rparr>"

text \<open>The state of a fresh process: the default dictionary is empty.\<close>

definition fresh :: "'v state" where
  "fresh = \<lparr>env = Map.empty, time_reads = 0, stdout = []\<rparr>"




section \<open>The for tag\<close>

subsection \<open>An empty iteration\<close>

text \<open>
  C1. When the iterator is exhausted the loop of \<open>ForTag.run\<close> is left, and the
  statements after it delete every target from the environment. Nothing has bound a
  target when the iterator yielded no tuple, so, unless the name was bound before the
  loop, \<open>del pe.env[target]\<close> raises \<open>KeyError\<close>: exhaustion of an empty iterator ends
  in an error, not in a normal return with the bindings restored.
\<close>

theorem for_tag_empty_iterator_KeyError:
  assumes "raw_eval ev genexpr st = (Inr gen, st1)"
    and "ev_next ev gen (env st1) = (Inl StopIteration, e1)"
    and "e1 t = None"
  shows "exec_node ev (Suc (Suc n)) (TagNode (ForTag (t # ts) genexpr) src l kids) st
           = Some (Inl (KeyError t), st1\<lparr>env := e1\<rparr>)"
  using assms by simp

theorem for_tag_empty_iterator_KeyError_witness:
  "raw_eval sample_ev ''((x) for x in [])'' fresh = (Inr (PyGen []), fresh)
   \<and> ev_next sample_ev (PyGen []) (env fresh) = (Inl StopIteration, Map.empty)
   \<and> (Map.empty :: pyval env) ''x'' = None
   \<and> exec_node sample_ev (Suc (Suc 0))
        (TagNode (ForTag [''x''] ''((x) for x in [])'') ''for x in []'' (1, 0) []) fresh
      = Some (Inl (KeyError ''x''), fresh)"
proof -
  have h1: "raw_eval sample_ev ''((x) for x in [])'' fresh = (Inr (PyGen []), fresh)"
    by (simp add: raw_eval_def sample_ev_def sample_eval_def fresh_def newline_def)
  have h2: "ev_next sample_ev (PyGen []) (env fresh) = (Inl StopIteration, Map.empty)"
    by (simp add: sample_ev_def fresh_def)
  have h3: "(Map.empty :: pyval env) ''x'' = None" by simp
  have "fresh\<lparr>env := Map.empty\<rparr> = (fresh :: pyval state)" by (simp add: fresh_def)
  with for_tag_empty_iterator_KeyError [where t = "''x''" and ts = "[]" and n = 0
      and src = "''for x in []''" and l = "(1, 0)" and kids = "[]", OF h1 h2 h3]
  show ?thesis using h1 h2 h3 by simp
qed

text \<open>The same on the whole path, from the template text: \<open>execute\<close> raises
  \<open>KeyError\<close> for a loop over the empty list.\<close>

lemma execute_empty_for:
  "map_option fst (execute sample_ev 4 ''{% for x in [] %}{% %}'' fresh)
     = Some (Inl (KeyError ''x''))"
  by code_simp

text \<open>Where the deletions succeed, they remove exactly the targets.\<close>

lemma del_targets_ok: "del_targets ts e = (Inr u, e') \<Longrightarrow> e' = e |` (- set ts)"
proof (induction ts arbitrary: e)
  case Nil
  then show ?case by simp
next
  case (Cons t ts)
  from Cons.prems have "del_targets ts (e(t := None)) = (Inr u, e')"
    by (simp split: if_splits)
  from Cons.IH [OF this] have "e' = (e(t := None)) |` (- set ts)" .
  then show ?case by (auto simp: restrict_map_def fun_eq_iff)
qed

text \<open>When \<open>ForTag.run\<close> returns, every target has the binding it had before the loop,
  or none if it had none: the targets neither leak nor clobber.\<close>

lemma for_tag_restores_targets:
  assumes "exec_node ev (Suc n) (TagNode (ForTag targets genexpr) src l kids) st
             = Some (Inr out, st')"
    and "x \<in> set targets"
  shows "env st' x = env st x"
  using assms
  by (auto simp: Let_def restrict_map_def map_add_def dest!: del_targets_ok
           split: prod.splits sum.splits option.splits if_splits)

subsection \<open>A for tag without targets\<close>

text \<open>
  C2. The body \<open>for x\<close> has no \<open>in\<close>, so \<open>_find_targets\<close> finds no target and executes
  \<open>raise IncorrectForTag\<close>. The class is raised without the \<open>node\<close> its constructor
  requires, so what reaches the caller of \<open>parse\<close> is a \<open>TypeError\<close>, not the
  structural error \<open>IncorrectForTag\<close>.
\<close>

theorem for_without_in_raises_TypeError:
  "find_targets ''for x'' = Inl TypeError
   \<and> lex_src ''{% for x %}'' = Inl TypeError
   \<and> parse ''{% for x %}'' = Inl TypeError"
  by code_simp

text \<open>No body makes \<open>_find_targets\<close> raise \<open>IncorrectForTag\<close>.\<close>

lemma find_targets_never_IncorrectForTag: "find_targets src \<noteq> Inl (IncorrectForTag s)"
  by (simp add: find_targets_def Let_def)

subsection \<open>Errors raised in the body of a for tag\<close>

text \<open>
  C3. The \<open>try\<close> block of \<open>ForTag.run\<close> holds the execution of the children as well as
  \<open>next(gen)\<close>, so a \<open>StopIteration\<close> that the evaluator raises in the body of the loop
  is caught by \<open>except StopIteration: break\<close>: the loop ends, the output of that
  iteration is dropped, and the caller sees a normal return, not the error.
\<close>

theorem for_tag_swallows_StopIteration:
  assumes "ev_next ev gen (env st) = (Inr (item, gen'), e1)"
    and "ev_iter ev item = Inr vals"
    and "exec_children ev n kids [] (st\<lparr>env := dict_update e1 (zip targets vals)\<rparr>)
           = Some (Inl StopIteration, st')"
  shows "ForTag_loop ev (Suc n) targets kids gen output st = Some (Inr output, st')"
  using assms by simp

theorem for_tag_swallows_StopIteration_witness:
  "ev_next sample_ev (PyGen [PyTuple [PyInt 1]]) (env fresh)
     = (Inr (PyTuple [PyInt 1], PyGen []), Map.empty)
   \<and> ev_iter sample_ev (PyTuple [PyInt 1]) = Inr [PyInt 1]
   \<and> exec_children sample_ev 2 [CodeNode ''next(iter([]))'' (1, 22)] []
        (fresh\<lparr>env := dict_update Map.empty (zip [''x''] [PyInt 1])\<rparr>)
      = Some (Inl StopIteration, fresh\<lparr>env := [''x'' \<mapsto> PyInt 1]\<rparr>)
   \<and> ForTag_loop sample_ev 3 [''x''] [CodeNode ''next(iter([]))'' (1, 22)]
        (PyGen [PyTuple [PyInt 1]]) [] fresh
      = Some (Inr [], fresh\<lparr>env := [''x'' \<mapsto> PyInt 1]\<rparr>)"
proof -
  have h1: "ev_next sample_ev (PyGen [PyTuple [PyInt 1]]) (env fresh)
              = (Inr (PyTuple [PyInt 1], PyGen []), Map.empty)"
    by (simp add: sample_ev_def fresh_def)
  have h2: "ev_iter sample_ev (PyTuple [PyInt 1]) = Inr [PyInt 1]"
    by (simp add: sample_ev_def)
  have h3: "exec_children sample_ev (Suc (Suc 0)) [CodeNode ''next(iter([]))'' (1, 22)] []
        (fresh\<lparr>env := dict_update Map.empty (zip [''x''] [PyInt 1])\<rparr>)
      = Some (Inl StopIteration, fresh\<lparr>env := [''x'' \<mapsto> PyInt 1]\<rparr>)"
    by (simp add: pe_run_def sample_ev_def sample_eval_def dict_update_def newline_def fresh_def)
  from for_tag_swallows_StopIteration [OF h1 h2 h3, of "[]"] h1 h2 h3
  show ?thesis by (simp add: numeral_2_eq_2 numeral_3_eq_3)
qed

text \<open>On the whole path: the same code block raises \<open>StopIteration\<close> to the caller of
  \<open>execute\<close> when it stands alone, and is silenced inside a for tag, whose run prints
  the empty output.\<close>

lemma execute_stop_in_body:
  "map_option (\<lambda>(r, st). (r, stdout st))
     (execute sample_ev 6 ''{% for x in [(1,)] %}{{next(iter([]))}}{% %}'' fresh)
     = Some (Inr (), [[]])
   \<and> map_option (\<lambda>(r, st). (r, stdout st)) (execute sample_ev 6 ''{{next(iter([]))}}'' fresh)
     = Some (Inl StopIteration, [])"
  by code_simp

text \<open>Every other exception raised in the body leaves the loop as it is.\<close>

lemma for_tag_propagates_other_errors:
  assumes "ev_next ev gen (env st) = (Inr (item, gen'), e1)"
    and "ev_iter ev item = Inr vals"
    and "exec_children ev n kids [] (st\<lparr>env := dict_update e1 (zip targets vals)\<rparr>)
           = Some (Inl e, st')"
    and "e \<noteq> StopIteration"
  shows "ForTag_loop ev (Suc n) targets kids gen output st = Some (Inl e, st')"
  using assms by simp

section \<open>The comment tag\<close>

lemma parse_comment_scenario:
  "parse ''{% comment %}{{ 1/0 }}{% %}'' =
     Inr (RootNode [TagNode CommentTag ''comment'' (1, 0) [CodeNode '' 1/0 '' (1, 13)]])"
  by code_simp

text \<open>The scenario of the specification, for every evaluator: the output printed is
  empty and the environment is the one \<open>PypageExec()\<close> set up.\<close>

lemma comment_scenario:
  "execute ev (Suc (Suc (Suc n))) ''{% comment %}{{ 1/0 }}{% %}'' st =
     Some (Inr (), st\<lparr>env := PypageExec_init ev (env st) ''pypage_transient'',
                      stdout := stdout st @ [[]]\<rparr>)"
  by (simp add: execute_def parse_comment_scenario exec_tree_def)

text \<open>Malformed tags inside a comment are errors of \<open>parse\<close>.\<close>

lemma comment_nested_errors:
  "parse ''{% comment %}{% bogus %}{% %}'' = Inl (UnknownTag '' bogus '')
   \<and> parse ''{% comment %}{% while x %}{% %}'' = Inl (UnclosedTag ''comment'' (1, 0))
   \<and> parse ''{% comment %}{{ 1/0 }}'' = Inl (UnclosedTag ''comment'' (1, 0))"
  by code_simp

section \<open>Plain text\<close>

lemma parse_single_char: "parse ''a'' = Inr (RootNode [])"
  by code_simp

text \<open>
  C5. The loop of \<open>lex\<close> runs while \<open>i < len(src) - 1\<close>, so for a source of one
  character it does not run at all: no token is made, and the output printed is empty,
  not the character.
\<close>

theorem single_character_is_lost:
  "lex_src ''a'' = Inr []
   \<and> execute ev (Suc n) ''a'' st =
       Some (Inr (), st\<lparr>env := PypageExec_init ev (env st) ''pypage_transient'',
                        stdout := stdout st @ [[]]\<rparr>)"
proof
  show "lex_src ''a'' = Inr []" by code_simp
next
  show "execute ev (Suc n) ''a'' st =
       Some (Inr (), st\<lparr>env := PypageExec_init ev (env st) ''pypage_transient'',
                        stdout := stdout st @ [[]]\<rparr>)"
    by (simp add: execute_def parse_single_char exec_tree_def)
qed

section \<open>Source positions\<close>

text \<open>
  C9. \<open>line_i\<close> starts at 0 and becomes the index of each newline read, and the column
  is \<open>i - line_i\<close>. On the first line that is the 0-based offset; on any later line it
  is the distance from the newline itself, so the first character of the line has
  column 1, not 0.
\<close>

theorem column_after_newline_is_one:
  "lex_src (newline # ''{{x}}'') = Inr [TextNode [newline], CodeNode ''x'' (2, 1)]
   \<and> lex_src ''{{x}}'' = Inr [CodeNode ''x'' (1, 0)]
   \<and> lex_src (newline # ''{{x'') = Inl (IncompleteDelimitedNode ''}}'' ''{{'' (2, 1))"
  by code_simp

section \<open>The tree builder's balance\<close>

lemma add_children_Nil [simp]: "add_children node [] = node"
  by (simp add: add_children_def)

lemma add_children_Cons [simp]:
  "add_children node (k # ks) = add_children (append_child node k) ks"
  by (simp add: add_children_def)

lemma add_children_Root [simp]: "add_children (RootNode cs) ks = RootNode (cs @ ks)"
  by (induction ks arbitrary: cs) simp_all

lemma add_children_Tag [simp]: "add_children (TagNode k s l cs) ks = TagNode k s l (cs @ ks)"
  by (induction ks arbitrary: cs) simp_all

lemma add_children_leaf [simp]:
  "add_children (TextNode s) ks = TextNode s" "add_children (CodeNode s l) ks = CodeNode s l"
  by (induction ks) simp_all

lemma add_children_append: "add_children node (ks @ ks') = add_children (add_children node ks) ks'"
  by (simp add: add_children_def)

lemma is_TagNode_append_child [simp]: "is_TagNode (append_child node c) = is_TagNode node"
  by (cases node) simp_all

lemma is_RootNode_append_child [simp]: "is_RootNode (append_child node c) = is_RootNode node"
  by (cases node) simp_all

lemma is_TagNode_add_children [simp]: "is_TagNode (add_children node ks) = is_TagNode node"
  by (cases node) simp_all

lemma is_RootNode_add_children [simp]: "is_RootNode (add_children node ks) = is_RootNode node"
  by (cases node) simp_all

lemma node_src_add_children [simp]: "node_src (add_children node ks) = node_src node"
  by (cases node) simp_all

lemma node_loc_add_children [simp]: "node_loc (add_children node ks) = node_loc node"
  by (cases node) simp_all

lemma is_CloseTag_TagNode [simp]: "is_CloseTag (TagNode k s l cs) = (k = CloseTag)"
  by (cases k) simp_all

lemma is_CloseTag_is_TagNode: "is_CloseTag t \<Longrightarrow> is_TagNode t"
  by (cases t) simp_all

text \<open>The builder consumes a balanced stretch and appends its forest.\<close>

lemma build_tree_consumes:
  "forest_of ts kids \<Longrightarrow> build_tree node (ts @ rest) = build_tree (add_children node kids) rest"
proof (induction arbitrary: node rest rule: forest_of.induct)
  case forest_nil
  show ?case by simp
next
  case (forest_leaf t ts ns)
  from forest_leaf.hyps(1) have "\<not> is_CloseTag t" by (auto dest: is_CloseTag_is_TagNode)
  with forest_leaf show ?case by simp
next
  case (forest_tag k ts1 kids c ts2 ns s l cs)
  have inner: "build_tree (TagNode k s l cs) (ts1 @ c # ts2 @ rest)
                 = Inr (TagNode k s l (cs @ kids), ts2 @ rest)"
    using forest_tag.IH(1) [of "TagNode k s l cs" "c # ts2 @ rest"] forest_tag.hyps(3)
    by simp
  show ?case
    using forest_tag.hyps(1) inner forest_tag.IH(2) [of "append_child node (TagNode k s l (cs @ kids))" rest]
    by simp
qed

lemma build_tree_sound:
  "build_tree node tokens = Inr (node', rest) \<Longrightarrow>
     \<exists>kids consumed. node' = add_children node kids \<and> forest_of consumed kids
       \<and> (if is_TagNode node then (\<exists>c. is_CloseTag c \<and> tokens = consumed @ c # rest)
          else tokens = consumed \<and> rest = [] \<and> is_RootNode node)"
proof (induction node tokens arbitrary: node' rest rule: build_tree.induct)
  case (1 node)
  then have "is_RootNode node" "node' = node" "rest = []" by (auto split: if_splits)
  moreover have "\<not> is_TagNode node" using \<open>is_RootNode node\<close> by (cases node) simp_all
  ultimately show ?case using forest_nil by (intro exI [of _ "[]"]) simp
next
  case (2 node tok tokens)
  show ?case
  proof (cases "is_CloseTag tok")
    case True
    with "2.prems" have "is_TagNode node" "node' = node" "rest = tokens"
      by (auto split: if_splits)
    with True show ?thesis using forest_nil by (intro exI [of _ "[]"]) auto
  next
    case notclose: False
    show ?thesis
    proof (cases "is_TagNode tok")
      case True
      with notclose "2.prems" obtain tok' tokens' where
        inner: "build_tree tok tokens = Inr (tok', tokens')" and
        outer: "build_tree (append_child node tok') tokens' = Inr (node', rest)"
        by (auto split: sum.splits)
      from "2.IH"(1) [OF notclose True inner] True obtain kids1 consumed1 c where
        k1: "tok' = add_children tok kids1" "forest_of consumed1 kids1"
            "is_CloseTag c" "tokens = consumed1 @ c # tokens'"
        by auto
      from "2.IH"(2) [OF notclose True inner refl outer] obtain kids2 consumed2 where
        k2: "node' = add_children (append_child node tok') kids2" "forest_of consumed2 kids2"
            "if is_TagNode (append_child node tok')
             then (\<exists>c. is_CloseTag c \<and> tokens' = consumed2 @ c # rest)
             else tokens' = consumed2 \<and> rest = [] \<and> is_RootNode (append_child node tok')"
        by blast
      from True notclose obtain k s l cs where tok: "tok = TagNode k s l cs" "k \<noteq> CloseTag"
        by (cases tok) auto
      from forest_tag [OF tok(2) k1(2) k1(3) k2(2), of s l cs] k1(1) tok
      have f: "forest_of (tok # consumed1 @ c # consumed2) (tok' # kids2)" by simp
      have n: "node' = add_children node (tok' # kids2)" using k2(1) by simp
      show ?thesis
        apply (rule exI [of _ "tok' # kids2"])
        apply (rule exI [of _ "tok # consumed1 @ c # consumed2"])
        using f n k2(3) k1(4) by auto
    next
      case False
      with notclose "2.prems" have
        outer: "build_tree (append_child node tok) tokens = Inr (node', rest)" by simp
      from "2.IH"(3) [OF notclose False outer] obtain kids2 consumed2 where
        k2: "node' = add_children (append_child node tok) kids2" "forest_of consumed2 kids2"
            "if is_TagNode (append_child node tok)
             then (\<exists>c. is_CloseTag c \<and> tokens = consumed2 @ c # rest)
             else tokens = consumed2 \<and> rest = [] \<and> is_RootNode (append_child node tok)"
        by blast
      from forest_leaf [OF False k2(2)] have f: "forest_of (tok # consumed2) (tok # kids2)" .
      show ?thesis
        apply (rule exI [of _ "tok # kids2"])
        apply (rule exI [of _ "tok # consumed2"])
        using f k2(1) k2(3) by auto
    qed
  qed
qed

lemma build_tree_unclosed:
  "open_prefix pre \<Longrightarrow> is_TagNode t \<Longrightarrow> \<not> is_CloseTag t \<Longrightarrow> forest_of post kids
     \<Longrightarrow> build_tree node (pre @ t # post) = Inl (UnclosedTag (node_src t) (node_loc t))"
proof (induction arbitrary: node rule: open_prefix.induct)
  case open_nil
  have "\<not> is_RootNode (add_children t kids)" using open_nil(1) by (cases t) simp_all
  with build_tree_consumes [OF open_nil(3), of t "[]"]
  have "build_tree t post = Inl (UnclosedTag (node_src t) (node_loc t))" by simp
  with open_nil show ?case by simp
next
  case (open_forest b ns p)
  from build_tree_consumes [OF open_forest.hyps(1), of node "p @ t # post"]
    open_forest.IH [OF open_forest.prems, of "add_children node ns"]
  show ?case by simp
next
  case (open_tag t1 p)
  from open_tag.IH [OF open_tag.prems, of t1] open_tag.hyps
  show ?case by simp
qed

lemma forest_no_close: "forest_of ts ns \<Longrightarrow> n \<in> set ns \<Longrightarrow> \<not> is_CloseTag n"
  by (induction rule: forest_of.induct) (auto dest: is_CloseTag_is_TagNode)

lemma forest_close_free:
  "forest_of ts ns \<Longrightarrow> \<forall>t \<in> set ts. children t = [] \<Longrightarrow> \<forall>n \<in> set ns. close_free n"
proof (induction rule: forest_of.induct)
  case forest_nil
  show ?case by simp
next
  case (forest_leaf t ts ns)
  from forest_leaf.hyps(1) forest_leaf.prems have "close_free t" by (cases t) simp_all
  with forest_leaf show ?case by simp
next
  case (forest_tag k ts1 kids c ts2 ns s l cs)
  from forest_tag.prems have "cs = []" by simp
  with forest_tag show ?case by simp
qed

text \<open>
  C7. \<open>build_tree\<close> on the root succeeds exactly on the balanced token streams, and the
  tree it returns is their forest: every opening tag is followed by the tokens of its
  children and one close marker at its own depth, and no close marker is a node of the
  tree. A close marker after a balanced stretch, so with no tag open, raises
  \<open>UnboundCloseTag\<close> with the body and position of that marker. When the tokens end
  after an opening tag that is followed only by a balanced stretch, \<open>UnclosedTag\<close> is
  raised with the body and position of that opening tag.
\<close>

theorem build_tree_balance:
  "(build_tree (RootNode []) tokens = Inr (tree, rest) \<longrightarrow>
      rest = []
      \<and> (\<exists>kids. tree = RootNode kids \<and> forest_of tokens kids
            \<and> (\<forall>n \<in> set kids. \<not> is_CloseTag n))
      \<and> ((\<forall>t \<in> set tokens. children t = []) \<longrightarrow> close_free tree))
   \<and> (forest_of tokens kids1 \<longrightarrow> build_tree (RootNode []) tokens = Inr (RootNode kids1, []))
   \<and> (forest_of pre kids2 \<and> is_CloseTag c \<longrightarrow>
        build_tree (RootNode []) (pre @ c # post)
          = Inl (UnboundCloseTag (node_src c) (node_loc c)))
   \<and> (open_prefix pre \<and> is_TagNode t \<and> \<not> is_CloseTag t \<and> forest_of post kids3 \<longrightarrow>
        build_tree (RootNode []) (pre @ t # post)
          = Inl (UnclosedTag (node_src t) (node_loc t)))"
proof (intro conjI impI)
  assume b: "build_tree (RootNode []) tokens = Inr (tree, rest)"
  from build_tree_sound [OF b] obtain kids where
    k: "tree = RootNode kids" "forest_of tokens kids" "rest = []"
    by auto
  show "rest = []" by (rule k(3))
  show "\<exists>kids. tree = RootNode kids \<and> forest_of tokens kids \<and> (\<forall>n \<in> set kids. \<not> is_CloseTag n)"
    using k forest_no_close by blast
  show "close_free tree" if "\<forall>t \<in> set tokens. children t = []"
    using forest_close_free [OF k(2) that] k(1) by simp
next
  assume "forest_of tokens kids1"
  from build_tree_consumes [OF this, of "RootNode []" "[]"]
  show "build_tree (RootNode []) tokens = Inr (RootNode kids1, [])" by simp
next
  assume "forest_of pre kids2 \<and> is_CloseTag c"
  then have f: "forest_of pre kids2" and c: "is_CloseTag c" by simp_all
  from build_tree_consumes [OF f, of "RootNode []" "c # post"] c
  show "build_tree (RootNode []) (pre @ c # post)
          = Inl (UnboundCloseTag (node_src c) (node_loc c))" by simp
next
  assume "open_prefix pre \<and> is_TagNode t \<and> \<not> is_CloseTag t \<and> forest_of post kids3"
  then show "build_tree (RootNode []) (pre @ t # post)
          = Inl (UnclosedTag (node_src t) (node_loc t))"
    using build_tree_unclosed by blast
qed

theorem build_tree_balance_witness:
  "build_tree (RootNode [])
     [TextNode ''a'', TagNode CommentTag ''comment'' (1, 1) [], CodeNode ''x'' (1, 14),
      TagNode CloseTag '' '' (1, 19) []]
     = Inr (RootNode [TextNode ''a'', TagNode CommentTag ''comment'' (1, 1) [CodeNode ''x'' (1, 14)]], [])
   \<and> forest_of
        [TextNode ''a'', TagNode CommentTag ''comment'' (1, 1) [], CodeNode ''x'' (1, 14),
         TagNode CloseTag '' '' (1, 19) []]
        [TextNode ''a'', TagNode CommentTag ''comment'' (1, 1) [CodeNode ''x'' (1, 14)]]
   \<and> close_free (RootNode [TextNode ''a'', TagNode CommentTag ''comment'' (1, 1) [CodeNode ''x'' (1, 14)]])
   \<and> build_tree (RootNode []) [TextNode ''a'', TagNode CloseTag '' '' (1, 1) []]
       = Inl (UnboundCloseTag '' '' (1, 1))
   \<and> build_tree (RootNode [])
        [TagNode CommentTag ''comment'' (1, 0) [], TagNode (WhileTag ''x'' False False) ''while x'' (1, 13) [],
         TextNode ''b'']
       = Inl (UnclosedTag ''while x'' (1, 13))"
proof -
  let ?toks = "[TextNode ''a'', TagNode CommentTag ''comment'' (1, 1) [], CodeNode ''x'' (1, 14),
      TagNode CloseTag '' '' (1, 19) []]"
  let ?tree = "RootNode [TextNode ''a'', TagNode CommentTag ''comment'' (1, 1) [CodeNode ''x'' (1, 14)]]"
  have b: "build_tree (RootNode []) ?toks = Inr (?tree, [])" by simp
  have ch: "\<forall>t \<in> set ?toks. children t = []" by simp
  from build_tree_balance [where tokens = ?toks and tree = ?tree and rest = "[]"] b ch
  have s: "forest_of ?toks [TextNode ''a'', TagNode CommentTag ''comment'' (1, 1) [CodeNode ''x'' (1, 14)]]"
       "close_free ?tree"
    by auto
  have fa: "forest_of [TextNode ''a''] [TextNode ''a'']"
    by (intro forest_leaf forest_nil) simp
  from build_tree_balance [where pre = "[TextNode ''a'']" and ?kids2.0 = "[TextNode ''a'']"
      and c = "TagNode CloseTag '' '' (1, 1) []" and post = "[]"] fa
  have u: "build_tree (RootNode []) [TextNode ''a'', TagNode CloseTag '' '' (1, 1) []]
       = Inl (UnboundCloseTag '' '' (1, 1))" by simp
  have op: "open_prefix [TagNode CommentTag ''comment'' (1, 0) []]"
    by (intro open_tag open_nil) simp_all
  have fb: "forest_of [TextNode ''b''] [TextNode ''b'']"
    by (intro forest_leaf forest_nil) simp
  from build_tree_balance [where pre = "[TagNode CommentTag ''comment'' (1, 0) []]"
      and t = "TagNode (WhileTag ''x'' False False) ''while x'' (1, 13) []"
      and post = "[TextNode ''b'']" and ?kids3.0 = "[TextNode ''b'']"]
    op fb
  have uc: "build_tree (RootNode [])
        [TagNode CommentTag ''comment'' (1, 0) [], TagNode (WhileTag ''x'' False False) ''while x'' (1, 13) [],
         TextNode ''b'']
       = Inl (UnclosedTag ''while x'' (1, 13))" by simp
  from b s u uc show ?thesis by simp
qed

section \<open>The passes of the lexer\<close>

text \<open>The ways a pass of the loop can end without raising.\<close>

lemma lex_step_cases [consumes 1, case_names opened closed escape char last]:
  assumes step: "lex_step src st = Inr st'"
  obtains
    (opened) n where
      "open_node (pair_at src (ls_i st)) (here src st) = Some n"
      "ls_node st = None \<or> is_TextNode (current_node st)"
      "st' = (count_line src st)\<lparr>ls_tokens :=
                 (case ls_node st of None \<Rightarrow> ls_tokens st | Some t \<Rightarrow> ls_tokens st @ [t]),
               ls_node := Some n, ls_i := ls_i st + 2\<rparr>"
  | (closed) n where
      "is_DelimitedNode (current_node st)"
      "pair_at src (ls_i st) = close_delim (current_node st)"
      "n = current_node st \<or> (\<exists>t. construct t (current_node st) = Inr n)"
      "st' = (count_line src st)\<lparr>ls_tokens := ls_tokens st @ [n], ls_node := None,
               ls_i := ls_i st + 2\<rparr>"
  | (escape)
      "src ! ls_i st = backslash"
      "src ! (ls_i st + 1) = CHR ''{'' \<or> src ! (ls_i st + 1) = CHR ''}''"
      "st' = (count_line src st)\<lparr>ls_node := Some (add_src (current_node st) [src ! (ls_i st + 1)]),
               ls_i := ls_i st + 2\<rparr>"
  | (char)
      "ls_i st + 2 < length src"
      "st' = (count_line src st)\<lparr>ls_node := Some (add_src (current_node st) [src ! ls_i st]),
               ls_i := ls_i st + 1\<rparr>"
  | (last)
      "\<not> ls_i st + 2 < length src"
      "st' = (count_line src st)\<lparr>ls_node := Some (add_src (current_node st) (pair_at src (ls_i st))),
               ls_i := ls_i st + 2\<rparr>"
proof -
  let ?c2 = "pair_at src (ls_i st)"
  let ?cur = "current_node st"
  let ?op = "open_node ?c2 (here src st)"
  note defs = lex_step_def Let_def count_line_def here_def pair_at_def current_node_def
  show thesis
  proof (cases "ls_node st = None \<and> ?op \<noteq> None")
    case True
    then obtain n where n: "?op = Some n" by auto
    with True step have "st' = (count_line src st)\<lparr>ls_tokens :=
                 (case ls_node st of None \<Rightarrow> ls_tokens st | Some t \<Rightarrow> ls_tokens st @ [t]),
               ls_node := Some n, ls_i := ls_i st + 2\<rparr>"
      by (simp add: defs)
    with n True show thesis by (intro opened) auto
  next
    case c1: False
    show thesis
    proof (cases "is_TextNode ?cur \<and> ?op \<noteq> None")
      case True
      then obtain n where n: "?op = Some n" by auto
      from True c1 obtain t where t: "ls_node st = Some t"
        by (cases "ls_node st") auto
      with True n c1 step have "st' = (count_line src st)\<lparr>ls_tokens :=
                 (case ls_node st of None \<Rightarrow> ls_tokens st | Some t \<Rightarrow> ls_tokens st @ [t]),
               ls_node := Some n, ls_i := ls_i st + 2\<rparr>"
        by (simp add: defs)
      with n True show thesis by (intro opened) auto
    next
      case c2: False
      show thesis
      proof (cases "is_DelimitedNode ?cur \<and> ?c2 = close_delim ?cur")
        case True
        show thesis
        proof (cases "is_TagNode ?cur")
          case tag: True
          from step c1 c2 True tag obtain t n where
            "construct t ?cur = Inr n"
            "st' = (count_line src st)\<lparr>ls_tokens := ls_tokens st @ [n], ls_node := None,
               ls_i := ls_i st + 2\<rparr>"
            by (auto simp: defs split: if_splits option.splits sum.splits)
          with True show thesis by (intro closed [of n]) auto
        next
          case False
          with step c1 c2 True have
            "st' = (count_line src st)\<lparr>ls_tokens := ls_tokens st @ [?cur], ls_node := None,
               ls_i := ls_i st + 2\<rparr>"
            by (auto simp: defs split: option.splits)
          with True show thesis by (intro closed [of ?cur]) auto
        qed
      next
        case c3: False
        show thesis
        proof (cases "?c2 = [backslash, CHR ''{''] \<or> ?c2 = [backslash, CHR ''}'']")
          case True
          with step c1 c2 c3 have
            "st' = (count_line src st)\<lparr>ls_node := Some (add_src ?cur [src ! (ls_i st + 1)]),
               ls_i := ls_i st + 2\<rparr>"
            by (auto simp: defs split: option.splits)
          with True show thesis by (intro escape) (auto simp: pair_at_def)
        next
          case c4: False
          show thesis
          proof (cases "ls_i st + 2 < length src")
            case True
            with step c1 c2 c3 c4 have
              "st' = (count_line src st)\<lparr>ls_node := Some (add_src ?cur [src ! ls_i st]),
                 ls_i := ls_i st + 1\<rparr>"
              by (auto simp: defs split: option.splits)
            with True show thesis by (intro char) auto
          next
            case False
            with step c1 c2 c3 c4 have
              "st' = (count_line src st)\<lparr>ls_node := Some (add_src ?cur ?c2),
                 ls_i := ls_i st + 2\<rparr>"
              by (auto simp: defs split: option.splits)
            with False show thesis by (intro last) auto
          qed
        qed
      qed
    qed
  qed
qed


lemma close_delim_second:
  "is_DelimitedNode node \<Longrightarrow> pair_at src i = close_delim node \<Longrightarrow> src ! (i + 1) = CHR ''}''"
  by (cases node) (simp_all add: pair_at_def)

lemma open_node_second:
  "open_node (pair_at src i) l = Some n \<Longrightarrow> src ! (i + 1) = CHR ''{'' \<or> src ! (i + 1) = CHR ''%''"
  by (auto simp: open_node_def open_delims_def pair_at_def split: if_splits)

text \<open>A pass moves on by one character, or by two; in the second case no escaped
  brace starts at the character passed over.\<close>

lemma lex_step_index:
  assumes "lex_step src st = Inr st'"
  shows "ls_i st' = ls_i st + 1 \<or> (ls_i st' = ls_i st + 2 \<and> \<not> escape_at src (ls_i st + 1))"
  using assms
proof (cases rule: lex_step_cases)
  case (opened n)
  from open_node_second [OF opened(1)] opened(3) show ?thesis
    by (auto simp: escape_at_def backslash_def)
next
  case (closed n)
  from close_delim_second [OF closed(1,2)] closed(4) show ?thesis
    by (auto simp: escape_at_def backslash_def)
next
  case escape
  then show ?thesis by (auto simp: escape_at_def backslash_def)
next
  case char
  then show ?thesis by simp
next
  case last
  then show ?thesis by (simp add: escape_at_def)
qed

section \<open>Escaped braces\<close>

lemma lex_reach_visits:
  "lex_reach src st' \<Longrightarrow> j < ls_i st' \<Longrightarrow> escape_at src j
     \<Longrightarrow> \<exists>st. lex_reach src st \<and> ls_i st = j"
proof (induction rule: lex_reach.induct)
  case lex_reach_init
  then show ?case by (simp add: lex_init_def)
next
  case (lex_reach_step st st')
  show ?case
  proof (cases "j < ls_i st")
    case True
    with lex_reach_step show ?thesis by blast
  next
    case False
    have "j \<noteq> ls_i st + 1"
    proof
      assume "j = ls_i st + 1"
      with lex_step_index [OF lex_reach_step.hyps(3)] lex_reach_step.prems show False by auto
    qed
    moreover from lex_step_index [OF lex_reach_step.hyps(3)] lex_reach_step.prems(1)
    have "j < ls_i st + 2" by auto
    ultimately have "ls_i st = j" using False by simp
    with lex_reach_step.hyps(1) show ?thesis by blast
  qed
qed

lemma lex_loop_reach:
  "lex_loop src st = Inr fin \<Longrightarrow> lex_reach src st
     \<Longrightarrow> lex_reach src fin \<and> \<not> ls_i fin + 1 < length src"
proof (induction src st rule: lex_loop.induct)
  case (1 src st)
  show ?case
  proof (cases "ls_i st + 1 < length src")
    case True
    with "1.prems"(1) obtain st1 where s: "lex_step src st = Inr st1" "lex_loop src st1 = Inr fin"
      by (subst (asm) lex_loop.simps) (auto split: sum.splits)
    from "1.IH" [OF True s(1) s(2) lex_reach_step [OF "1.prems"(2) True s(1)]] show ?thesis .
  next
    case False
    with "1.prems" show ?thesis by (subst (asm) lex_loop.simps) simp
  qed
qed

lemma close_delim_not_escape: "[backslash, b] \<noteq> close_delim node"
  by (cases node) (simp_all add: backslash_def)

lemma open_node_not_escape: "open_node [backslash, b] l = None"
  by (simp add: open_node_def open_delims_def backslash_def)

lemma lex_step_escape:
  assumes "escape_at src (ls_i st)"
  shows "lex_step src st
           = Inr (st\<lparr>ls_node := Some (add_src (current_node st) [src ! (ls_i st + 1)]),
                     ls_i := ls_i st + 2\<rparr>)"
proof -
  from assms have b: "src ! ls_i st = backslash"
    and c: "src ! (ls_i st + 1) = CHR ''{'' \<or> src ! (ls_i st + 1) = CHR ''}''"
    by (simp_all add: escape_at_def)
  have nl: "backslash \<noteq> newline" by (simp add: backslash_def newline_def)
  show ?thesis
  proof (cases "ls_node st")
    case None
    with b c nl show ?thesis
      by (simp add: lex_step_def Let_def current_node_def open_node_not_escape)
  next
    case (Some n)
    with b c nl show ?thesis
      by (simp add: lex_step_def Let_def current_node_def open_node_not_escape
                    close_delim_not_escape)
  qed
qed

text \<open>
  C6. Let a backslash followed by \<open>{\<close> or \<open>}\<close> stand at index \<open>j\<close> of the source. A pass
  of the loop at \<open>j\<close> raises nothing and changes only the index, which moves past both
  characters, and the current node (the text node begun there if there was none), whose
  body gains the single brace: the tokens are as before, so no node is opened or
  closed. And the loop does make a pass at \<open>j\<close>: whenever it has reached an index
  beyond \<open>j\<close>, in particular whenever it runs to its end, one of its states had index
  \<open>j\<close>.
\<close>

theorem escaped_brace_is_literal:
  assumes "escape_at src j"
  shows "(\<forall>st. ls_i st = j \<longrightarrow>
            lex_step src st
              = Inr (st\<lparr>ls_node := Some (add_src (current_node st) [src ! (j + 1)]),
                        ls_i := j + 2\<rparr>))
         \<and> (\<forall>st'. lex_reach src st' \<and> j < ls_i st' \<longrightarrow> (\<exists>st. lex_reach src st \<and> ls_i st = j))
         \<and> (\<forall>fin. lex_loop src lex_init = Inr fin \<longrightarrow> (\<exists>st. lex_reach src st \<and> ls_i st = j))"
proof (intro conjI allI impI)
  fix st :: lex_state
  assume "ls_i st = j"
  with assms lex_step_escape [of src st]
  show "lex_step src st
          = Inr (st\<lparr>ls_node := Some (add_src (current_node st) [src ! (j + 1)]), ls_i := j + 2\<rparr>)"
    by simp
next
  fix st' assume "lex_reach src st' \<and> j < ls_i st'"
  with assms lex_reach_visits show "\<exists>st. lex_reach src st \<and> ls_i st = j" by blast
next
  fix fin assume "lex_loop src lex_init = Inr fin"
  from lex_loop_reach [OF this lex_reach_init]
  have r: "lex_reach src fin" and e: "\<not> ls_i fin + 1 < length src" by simp_all
  from assms e have "j < ls_i fin" by (simp add: escape_at_def)
  with assms r lex_reach_visits show "\<exists>st. lex_reach src st \<and> ls_i st = j" by blast
qed

theorem escaped_brace_is_literal_witness:
  "escape_at [backslash, CHR ''{'', CHR ''a'', CHR ''b''] 0
   \<and> lex_step [backslash, CHR ''{'', CHR ''a'', CHR ''b''] lex_init
       = Inr (lex_init\<lparr>ls_node := Some (TextNode ''{''), ls_i := 2\<rparr>)
   \<and> lex_src [backslash, CHR ''{'', CHR ''a'', CHR ''b''] = Inr [TextNode ''{ab'']"
proof -
  let ?src = "[backslash, CHR ''{'', CHR ''a'', CHR ''b'']"
  have e: "escape_at ?src 0" by (simp add: escape_at_def)
  have i: "ls_i lex_init = 0" by (simp add: lex_init_def)
  have c: "current_node lex_init = TextNode []" by (simp add: current_node_def lex_init_def)
  from escaped_brace_is_literal [OF e] i
  have "lex_step ?src lex_init
          = Inr (lex_init\<lparr>ls_node := Some (add_src (current_node lex_init) [?src ! (0 + 1)]),
                          ls_i := 0 + 2\<rparr>)"
    by blast
  with c have s: "lex_step ?src lex_init = Inr (lex_init\<lparr>ls_node := Some (TextNode ''{''), ls_i := 2\<rparr>)"
    by simp
  have l: "lex_src ?src = Inr [TextNode ''{ab'']" by code_simp
  from e s l show ?thesis by simp
qed

section \<open>The classifier\<close>

text \<open>The pass that reads the closing delimiter of a tag.\<close>

lemma lex_step_close_tag:
  assumes "ls_node st = Some (TagNode PlainTag body l cs)"
    and "pair_at src (ls_i st) = ''%}''"
  shows "lex_step src st =
           (if newline \<in> set body then Inl (MultiLineTag l)
            else (case classify body of
                    None \<Rightarrow> Inl (UnknownTag body)
                  | Some t \<Rightarrow>
                      (case construct t (TagNode PlainTag body l cs) of
                         Inl e \<Rightarrow> Inl e
                       | Inr node \<Rightarrow>
                           Inr (st\<lparr>ls_tokens := ls_tokens st @ [node], ls_node := None,
                                   ls_i := ls_i st + 2\<rparr>))))"
proof -
  from assms(2) have c: "src ! ls_i st = CHR ''%''" "src ! (ls_i st + 1) = CHR ''}''"
    by (simp_all add: pair_at_def)
  have nl: "CHR ''%'' \<noteq> newline" by (simp add: newline_def)
  have op: "open_node ''%}'' p = None" for p by (simp add: open_node_def open_delims_def)
  show ?thesis
  proof (cases "newline \<in> set body")
    case True
    with assms(1) c nl op show ?thesis by (simp add: lex_step_def Let_def)
  next
    case False
    show ?thesis
    proof (cases "classify body")
      case None
      with False assms(1) c nl op show ?thesis by (simp add: lex_step_def Let_def)
    next
      case (Some t)
      show ?thesis
      proof (cases "construct t (TagNode PlainTag body l cs)")
        case (Inl e)
        with Some False assms(1) c nl op show ?thesis by (simp add: lex_step_def Let_def)
      next
        case (Inr node)
        with Some False assms(1) c nl op show ?thesis by (simp add: lex_step_def Let_def)
      qed
    qed
  qed
qed

text \<open>
  C8, as the source has it. The body \<open>commentary\<close> is classified as a comment, though,
  trimmed, it is not the keyword \<open>comment\<close>: \<open>CommentTag.identify\<close> tests a prefix. And
  a body with a newline that matches no predicate does not raise \<open>UnknownTag\<close>: the test
  for a newline comes before the classifier and raises \<open>MultiLineTag\<close>.
\<close>

theorem comment_prefix_counterexample:
  "classify ''commentary'' = Some CommentTagC \<and> strip ''commentary'' \<noteq> ''comment''
   \<and> classify (''bo'' @ [newline] @ ''gus'') = None
   \<and> lex_src (''{%bo'' @ [newline] @ ''gus%}'') = Inl (MultiLineTag (1, 0))"
  by code_simp

text \<open>
  C8, amended. The predicates are tried in the order for, close, while, comment, each
  on the trimmed body: the prefix \<open>for \<close>, emptiness, the prefix \<open>while \<close>, the prefix
  \<open>comment\<close> (whatever follows it). The pass of the lexer that reads the closing
  delimiter of a tag raises \<open>MultiLineTag\<close> when the body has a newline; otherwise it
  classifies the body, raises \<open>UnknownTag\<close> with the body when no predicate holds, and
  else appends the node the class found constructs (or raises what its constructor
  raises).
\<close>

theorem classify_by_prefix:
  "classify body =
     (if startswith (strip body) ''for '' then Some ForTagC
      else if strip body = [] then Some CloseTagC
      else if startswith (strip body) ''while '' then Some WhileTagC
      else if startswith (strip body) ''comment'' then Some CommentTagC
      else None)
   \<and> (ls_node st = Some (TagNode PlainTag body l cs) \<and> pair_at src (ls_i st) = ''%}''
      \<longrightarrow> lex_step src st =
           (if newline \<in> set body then Inl (MultiLineTag l)
            else (case classify body of
                    None \<Rightarrow> Inl (UnknownTag body)
                  | Some t \<Rightarrow>
                      (case construct t (TagNode PlainTag body l cs) of
                         Inl e \<Rightarrow> Inl e
                       | Inr node \<Rightarrow>
                           Inr (st\<lparr>ls_tokens := ls_tokens st @ [node], ls_node := None,
                                   ls_i := ls_i st + 2\<rparr>)))))"
proof
  show "classify body =
     (if startswith (strip body) ''for '' then Some ForTagC
      else if strip body = [] then Some CloseTagC
      else if startswith (strip body) ''while '' then Some WhileTagC
      else if startswith (strip body) ''comment'' then Some CommentTagC
      else None)"
    by (simp add: classify_def tagNodeTypes_def)
next
  show "ls_node st = Some (TagNode PlainTag body l cs) \<and> pair_at src (ls_i st) = ''%}''
      \<longrightarrow> lex_step src st =
           (if newline \<in> set body then Inl (MultiLineTag l)
            else (case classify body of
                    None \<Rightarrow> Inl (UnknownTag body)
                  | Some t \<Rightarrow>
                      (case construct t (TagNode PlainTag body l cs) of
                         Inl e \<Rightarrow> Inl e
                       | Inr node \<Rightarrow>
                           Inr (st\<lparr>ls_tokens := ls_tokens st @ [node], ls_node := None,
                                   ls_i := ls_i st + 2\<rparr>))))"
    using lex_step_close_tag by blast
qed

theorem classify_by_prefix_witness:
  "classify ''bogus'' = None
   \<and> classify '' comment on this '' = Some CommentTagC
   \<and> lex_step ''{%bogus%}''
        \<lparr>ls_i = 7, ls_line = 1, ls_line_i = 0,
         ls_node = Some (TagNode PlainTag ''bogus'' (1, 0) []), ls_tokens = []\<rparr>
       = Inl (UnknownTag ''bogus'')
   \<and> lex_src ''{%bogus%}'' = Inl (UnknownTag ''bogus'')
   \<and> lex_step (''{%bo'' @ [newline] @ ''gus%}'')
        \<lparr>ls_i = 8, ls_line = 2, ls_line_i = 4,
         ls_node = Some (TagNode PlainTag (''bo'' @ [newline] @ ''gus'') (1, 0) []), ls_tokens = []\<rparr>
       = Inl (MultiLineTag (1, 0))"
proof -
  let ?st = "\<lparr>ls_i = 7, ls_line = 1, ls_line_i = 0,
         ls_node = Some (TagNode PlainTag ''bogus'' (1, 0) []), ls_tokens = []\<rparr>"
  let ?st2 = "\<lparr>ls_i = 8, ls_line = 2, ls_line_i = 4,
         ls_node = Some (TagNode PlainTag (''bo'' @ [newline] @ ''gus'') (1, 0) []), ls_tokens = []\<rparr>"
  have c: "classify ''bogus'' = None" "classify '' comment on this '' = Some CommentTagC"
    by code_simp+
  have p: "pair_at ''{%bogus%}'' (ls_i ?st) = ''%}''" by (simp add: pair_at_def)
  have n: "newline \<notin> set ''bogus''" by (simp add: newline_def)
  from classify_by_prefix [of "''bogus''" ?st "(1, 0)" "[]" "''{%bogus%}''"] c p n
  have s: "lex_step ''{%bogus%}'' ?st = Inl (UnknownTag ''bogus'')" by simp
  have l: "lex_src ''{%bogus%}'' = Inl (UnknownTag ''bogus'')" by code_simp
  have p2: "pair_at (''{%bo'' @ [newline] @ ''gus%}'') (ls_i ?st2) = ''%}''"
    by (simp add: pair_at_def)
  from classify_by_prefix [of "''bo'' @ [newline] @ ''gus''" ?st2 "(1, 0)" "[]"
      "''{%bo'' @ [newline] @ ''gus%}''"] p2
  have m: "lex_step (''{%bo'' @ [newline] @ ''gus%}'') ?st2 = Inl (MultiLineTag (1, 0))"
    by simp
  from c s l m show ?thesis by simp
qed

section \<open>The default environment\<close>










section \<open>Tokens of the lexer in the tree\<close>

text \<open>Every token the lexer makes is without children.\<close>

lemma construct_childless: "construct t node = Inr node' \<Longrightarrow> children node' = []"
  by (cases t)
     (auto simp: ForTag_init_def WhileTag_init_def CommentTag_init_def CloseTag_init_def Let_def
           split: if_splits sum.splits)

lemma children_add_src [simp]: "children (add_src node s) = children node"
  by (cases node) simp_all

lemma open_node_childless: "open_node c2 l = Some n \<Longrightarrow> children n = []"
  by (auto simp: open_node_def open_delims_def split: if_splits option.splits)

lemma lex_step_childless:
  assumes "lex_step src st = Inr st'" and "childless st"
  shows "childless st'"
  using assms(1)
proof (cases rule: lex_step_cases)
  case (opened n)
  with assms(2) open_node_childless [OF opened(1)] show ?thesis
    by (auto simp: childless_def current_node_def count_line_def split: option.splits)
next
  case (closed n)
  with assms(2) show ?thesis
    by (auto simp: childless_def current_node_def count_line_def dest: construct_childless)
next
  case escape
  with assms(2) show ?thesis by (simp add: childless_def current_node_def count_line_def)
next
  case char
  with assms(2) show ?thesis by (simp add: childless_def current_node_def count_line_def)
next
  case last
  with assms(2) show ?thesis by (simp add: childless_def current_node_def count_line_def)
qed

lemma lex_loop_childless:
  "lex_loop src st = Inr st' \<Longrightarrow> childless st \<Longrightarrow> childless st'"
proof (induction src st rule: lex_loop.induct)
  case (1 src st)
  show ?case
  proof (cases "ls_i st + 1 < length src")
    case True
    with "1.prems"(1) obtain st1 where s: "lex_step src st = Inr st1" "lex_loop src st1 = Inr st'"
      by (subst (asm) lex_loop.simps) (auto split: sum.splits)
    from "1.IH" [OF True s(1) s(2) lex_step_childless [OF s(1) "1.prems"(2)]] show ?thesis .
  next
    case False
    with "1.prems" show ?thesis by (subst (asm) lex_loop.simps) simp
  qed
qed

lemma lex_tokens_childless:
  assumes "lex_src src = Inr tokens" and "t \<in> set tokens"
  shows "children t = []"
proof -
  from assms(1) obtain st where st: "lex_loop src lex_init = Inr st"
    by (auto simp: lex_src_def split: sum.splits)
  have "childless lex_init" by (simp add: childless_def lex_init_def current_node_def)
  with lex_loop_childless [OF st] have c: "childless st" .
  from assms st c show ?thesis
    by (auto simp: lex_src_def childless_def current_node_def list_all_iff
             split: option.splits if_splits)
qed

text \<open>So the tree \<open>parse\<close> returns holds no close marker at any depth.\<close>

lemma parse_close_free: "parse src = Inr tree \<Longrightarrow> close_free tree"
proof -
  assume p: "parse src = Inr tree"
  then obtain tokens rest where l: "lex_src src = Inr tokens"
    and b: "build_tree (RootNode []) tokens = Inr (tree, rest)"
    by (auto simp: parse_def split: sum.splits)
  from build_tree_sound [OF b] obtain kids where
    k: "tree = RootNode kids" "forest_of tokens kids" by auto
  from lex_tokens_childless [OF l] have "\<forall>t \<in> set tokens. children t = []" by blast
  from forest_close_free [OF k(2) this] k(1) show ?thesis by simp
qed

section \<open>Sources of plain text\<close>

lemma plain_text_at:
  "plain_text src \<Longrightarrow> j + 1 < length src
     \<Longrightarrow> open_delims (pair_at src j) = None \<and> \<not> escape_at src j"
  by (auto simp: plain_text_def list_all_iff pair_at_def)

lemma lex_step_plain:
  assumes "open_delims (pair_at src (ls_i st)) = None"
    and "\<not> escape_at src (ls_i st)"
    and "ls_i st + 1 < length src"
    and "current_node st = TextNode s"
  shows "lex_step src st =
           Inr ((count_line src st)
                  \<lparr>ls_node := Some (TextNode (s @ (if ls_i st + 2 < length src then [src ! ls_i st]
                                                   else pair_at src (ls_i st)))),
                   ls_i := (if ls_i st + 2 < length src then ls_i st + 1 else ls_i st + 2)\<rparr>)"
proof -
  from assms(2,3) have e: "[src ! ls_i st, src ! (ls_i st + 1)] \<noteq> [backslash, CHR ''{'']"
      "[src ! ls_i st, src ! (ls_i st + 1)] \<noteq> [backslash, CHR ''}'']"
    by (auto simp: escape_at_def)
  from assms(1) have o: "open_node [src ! ls_i st, src ! (ls_i st + 1)] l = None" for l
    by (simp add: open_node_def pair_at_def)
  show ?thesis
  proof (cases "ls_node st")
    case None
    with assms(4) e o show ?thesis
      by (auto simp: lex_step_def Let_def count_line_def pair_at_def current_node_def)
  next
    case (Some n)
    with assms(4) e o show ?thesis
      by (auto simp: lex_step_def Let_def count_line_def pair_at_def current_node_def)
  qed
qed

lemma lex_loop_plain:
  "plain_text src \<Longrightarrow> ls_i st + 1 < length src
     \<Longrightarrow> current_node st = TextNode (take (ls_i st) src) \<Longrightarrow> ls_tokens st = []
     \<Longrightarrow> \<exists>fin. lex_loop src st = Inr fin \<and> ls_node fin = Some (TextNode src) \<and> ls_tokens fin = []"
proof (induction src st rule: lex_loop.induct)
  case (1 src st)
  let ?i = "ls_i st"
  from plain_text_at [OF "1.prems"(1,2)]
  have p: "open_delims (pair_at src ?i) = None" "\<not> escape_at src ?i" by simp_all
  note step = lex_step_plain [OF p "1.prems"(2,3)]
  show ?case
  proof (cases "?i + 2 < length src")
    case True
    let ?st1 = "(count_line src st)\<lparr>ls_node := Some (TextNode (take ?i src @ [src ! ?i])),
                   ls_i := ?i + 1\<rparr>"
    from step True have s: "lex_step src st = Inr ?st1" by simp
    have t: "take ?i src @ [src ! ?i] = take (ls_i ?st1) src"
      using True by (simp add: take_Suc_conv_app_nth)
    have "\<exists>fin. lex_loop src ?st1 = Inr fin \<and> ls_node fin = Some (TextNode src) \<and> ls_tokens fin = []"
    proof (rule "1.IH" [OF "1.prems"(2) s "1.prems"(1)])
      show "ls_i ?st1 + 1 < length src" using True by simp
      show "current_node ?st1 = TextNode (take (ls_i ?st1) src)"
        using t by (simp add: current_node_def)
      show "ls_tokens ?st1 = []" using "1.prems"(4) by (simp add: count_line_def)
    qed
    moreover have "lex_loop src st = lex_loop src ?st1"
      using "1.prems"(2) s by (subst lex_loop.simps) simp
    ultimately show ?thesis by simp
  next
    case False
    with "1.prems"(2) have len: "length src = ?i + 2" by simp
    let ?st1 = "(count_line src st)\<lparr>ls_node := Some (TextNode (take ?i src @ pair_at src ?i)),
                   ls_i := ?i + 2\<rparr>"
    from step False have s: "lex_step src st = Inr ?st1" by simp
    have "take (Suc (Suc ?i)) src = take (Suc ?i) src @ [src ! Suc ?i]"
      using len by (intro take_Suc_conv_app_nth) simp
    moreover have "take (Suc ?i) src = take ?i src @ [src ! ?i]"
      using len by (intro take_Suc_conv_app_nth) simp
    moreover have "take (Suc (Suc ?i)) src = src" using len by simp
    ultimately have t: "take ?i src @ pair_at src ?i = src" by (simp add: pair_at_def)
    have "lex_loop src ?st1 = Inr ?st1" using len by (subst lex_loop.simps) simp
    moreover have "lex_loop src st = lex_loop src ?st1"
      using "1.prems"(2) s by (subst lex_loop.simps) simp
    ultimately show ?thesis using t "1.prems"(4) by (simp add: count_line_def)
  qed
qed

text \<open>A source of two or more characters without opening delimiter and without escaped
  brace is one text token, and the output printed for it is the source itself.\<close>

lemma lex_plain_text:
  assumes "plain_text src" and "2 \<le> length src"
  shows "lex_src src = Inr [TextNode src]"
proof -
  have "\<exists>fin. lex_loop src lex_init = Inr fin \<and> ls_node fin = Some (TextNode src)
          \<and> ls_tokens fin = []"
    using assms by (intro lex_loop_plain) (simp_all add: lex_init_def current_node_def)
  then show ?thesis by (auto simp: lex_src_def)
qed

lemma execute_plain_text:
  assumes "plain_text src" and "2 \<le> length src"
  shows "execute ev (Suc (Suc n)) src st =
           Some (Inr (), st\<lparr>env := PypageExec_init ev (env st) ''pypage_transient'',
                            stdout := stdout st @ [src]\<rparr>)"
  using lex_plain_text [OF assms]
  by (simp add: execute_def parse_def exec_tree_def)

lemma execute_empty_text:
  "execute ev (Suc n) [] st =
     Some (Inr (), st\<lparr>env := PypageExec_init ev (env st) ''pypage_transient'',
                      stdout := stdout st @ [[]]\<rparr>)"
proof -
  have "lex_src [] = Inr []"
    by (simp add: lex_src_def lex_loop.simps lex_init_def)
  then show ?thesis by (simp add: execute_def parse_def exec_tree_def)
qed

section \<open>The children of a comment tag\<close>

lemma lex_comment_scenario:
  "lex_src ''{% comment %}{{ 1/0 }}{% %}'' =
     Inr [TagNode CommentTag ''comment'' (1, 0) [], CodeNode '' 1/0 '' (1, 13),
          TagNode CloseTag '' '' (1, 22) []]"
  by code_simp

text \<open>
  C4. The children of a comment tag are parsed: the tokens between the tag and its
  close marker, when balanced, become the forest that is the children of the comment
  node appended to its parent. They are validated: an opening tag inside the comment
  that is never closed raises \<open>UnclosedTag\<close> for that tag, as does the comment tag
  itself when its close marker is missing; and the pass of the lexer that ends a tag
  raises \<open>MultiLineTag\<close> or \<open>UnknownTag\<close> for a malformed body in every state, so
  whatever tokens precede it, an open comment tag among them. They are never run:
  executing the comment node returns the empty text and the state it was given, for
  every evaluator and whatever the children, so within a list of nodes the comment
  adds nothing to the output and calls nothing.
\<close>

theorem comment_children_parsed_never_run:
  "(forest_of ts kids \<and> is_CloseTag c \<longrightarrow>
      build_tree (TagNode CommentTag s l []) (ts @ c # rest)
        = Inr (TagNode CommentTag s l kids, rest)
      \<and> build_tree parent (TagNode CommentTag s l [] # ts @ c # rest)
        = build_tree (append_child parent (TagNode CommentTag s l kids)) rest)
   \<and> (open_prefix pre \<and> is_TagNode t \<and> \<not> is_CloseTag t \<and> forest_of post kids1 \<longrightarrow>
        build_tree parent (TagNode CommentTag s l [] # pre @ t # post)
          = Inl (UnclosedTag (node_src t) (node_loc t)))
   \<and> (forest_of ts kids \<longrightarrow>
        build_tree parent (TagNode CommentTag s l [] # ts) = Inl (UnclosedTag s l))
   \<and> (ls_node st0 = Some (TagNode PlainTag body l1 cs) \<and> pair_at src (ls_i st0) = ''%}''
        \<and> (newline \<in> set body \<or> classify body = None) \<longrightarrow>
        lex_step src st0
          = Inl (if newline \<in> set body then MultiLineTag l1 else UnknownTag body))
   \<and> exec_node ev (Suc n) (TagNode CommentTag s l kids2) st = Some (Inr [], st)
   \<and> exec_children ev (Suc (Suc n)) (TagNode CommentTag s l kids2 # nodes) output st
        = exec_children ev (Suc n) nodes output st"
proof (intro conjI impI)
  assume a: "forest_of ts kids \<and> is_CloseTag c"
  then have f: "forest_of ts kids" and c: "is_CloseTag c" by simp_all
  from build_tree_consumes [OF f, of "TagNode CommentTag s l []" "c # rest"] c
  show inner: "build_tree (TagNode CommentTag s l []) (ts @ c # rest)
        = Inr (TagNode CommentTag s l kids, rest)"
    by simp
  then show "build_tree parent (TagNode CommentTag s l [] # ts @ c # rest)
        = build_tree (append_child parent (TagNode CommentTag s l kids)) rest"
    by simp
next
  assume a: "open_prefix pre \<and> is_TagNode t \<and> \<not> is_CloseTag t \<and> forest_of post kids1"
  then have "build_tree (TagNode CommentTag s l []) (pre @ t # post)
          = Inl (UnclosedTag (node_src t) (node_loc t))"
    using build_tree_unclosed by blast
  then show "build_tree parent (TagNode CommentTag s l [] # pre @ t # post)
          = Inl (UnclosedTag (node_src t) (node_loc t))"
    by simp
next
  assume f: "forest_of ts kids"
  from build_tree_consumes [OF f, of "TagNode CommentTag s l []" "[]"]
  have "build_tree (TagNode CommentTag s l []) ts = Inl (UnclosedTag s l)" by simp
  then show "build_tree parent (TagNode CommentTag s l [] # ts) = Inl (UnclosedTag s l)"
    by simp
next
  assume a: "ls_node st0 = Some (TagNode PlainTag body l1 cs) \<and> pair_at src (ls_i st0) = ''%}''
        \<and> (newline \<in> set body \<or> classify body = None)"
  then have "ls_node st0 = Some (TagNode PlainTag body l1 cs)" "pair_at src (ls_i st0) = ''%}''"
    by simp_all
  from lex_step_close_tag [OF this] a
  show "lex_step src st0 = Inl (if newline \<in> set body then MultiLineTag l1 else UnknownTag body)"
    by auto
next
  show "exec_node ev (Suc n) (TagNode CommentTag s l kids2) st = Some (Inr [], st)" by simp
next
  show "exec_children ev (Suc (Suc n)) (TagNode CommentTag s l kids2 # nodes) output st
        = exec_children ev (Suc n) nodes output st"
    by simp
qed

theorem comment_children_parsed_never_run_witness:
  "lex_src ''{% comment %}{{ 1/0 }}{% %}'' =
     Inr [TagNode CommentTag ''comment'' (1, 0) [], CodeNode '' 1/0 '' (1, 13),
          TagNode CloseTag '' '' (1, 22) []]
   \<and> build_tree (RootNode [])
        [TagNode CommentTag ''comment'' (1, 0) [], CodeNode '' 1/0 '' (1, 13),
         TagNode CloseTag '' '' (1, 22) []]
       = Inr (RootNode [TagNode CommentTag ''comment'' (1, 0) [CodeNode '' 1/0 '' (1, 13)]], [])
   \<and> build_tree (RootNode [])
        [TagNode CommentTag ''comment'' (1, 0) [],
         TagNode (WhileTag ''x'' False False) ''while x'' (1, 13) []]
       = Inl (UnclosedTag ''while x'' (1, 13))
   \<and> build_tree (RootNode [])
        [TagNode CommentTag ''comment'' (1, 0) [], CodeNode '' 1/0 '' (1, 13)]
       = Inl (UnclosedTag ''comment'' (1, 0))
   \<and> lex_step ''{% comment %}{%bogus%}{% %}''
        \<lparr>ls_i = 20, ls_line = 1, ls_line_i = 0,
         ls_node = Some (TagNode PlainTag ''bogus'' (1, 13) []),
         ls_tokens = [TagNode CommentTag ''comment'' (1, 0) []]\<rparr>
       = Inl (UnknownTag ''bogus'')
   \<and> parse ''{% comment %}{%bogus%}{% %}'' = Inl (UnknownTag ''bogus'')
   \<and> exec_node sample_ev (Suc 0)
        (TagNode CommentTag ''comment'' (1, 0) [CodeNode '' 1/0 '' (1, 13)]) fresh
       = Some (Inr [], fresh)
   \<and> exec_children sample_ev 3
        [TagNode CommentTag ''comment'' (1, 0) [CodeNode '' 1/0 '' (1, 13)], TextNode ''ab''] [] fresh
       = Some (Inr ''ab'', fresh)"
proof -
  let ?c = "TagNode CloseTag '' '' (1, 22) []"
  let ?code = "CodeNode '' 1/0 '' (1, 13)"
  let ?w = "TagNode (WhileTag ''x'' False False) ''while x'' (1, 13) []"
  let ?st = "\<lparr>ls_i = 20, ls_line = 1, ls_line_i = 0,
         ls_node = Some (TagNode PlainTag ''bogus'' (1, 13) []),
         ls_tokens = [TagNode CommentTag ''comment'' (1, 0) []]\<rparr>"
  note inst = comment_children_parsed_never_run
     [where s = "''comment''" and l = "(1, 0)" and parent = "RootNode []"]
  have f: "forest_of [?code] [?code]" by (intro forest_leaf forest_nil) simp
  have c: "is_CloseTag ?c" by simp
  from inst [where ts = "[?code]" and kids = "[?code]" and c = ?c and rest = "[]"] f c
  have b1: "build_tree (RootNode []) [TagNode CommentTag ''comment'' (1, 0) [], ?code, ?c]
       = build_tree (append_child (RootNode []) (TagNode CommentTag ''comment'' (1, 0) [?code])) []"
    and b3: "build_tree (RootNode []) [TagNode CommentTag ''comment'' (1, 0) [], ?code]
       = Inl (UnclosedTag ''comment'' (1, 0))"
    by simp_all
  from b1 have b1': "build_tree (RootNode []) [TagNode CommentTag ''comment'' (1, 0) [], ?code, ?c]
       = Inr (RootNode [TagNode CommentTag ''comment'' (1, 0) [?code]], [])"
    by simp
  from inst [where pre = "[]" and t = ?w and post = "[]" and ?kids1.0 = "[]"] open_nil forest_nil
  have b2: "build_tree (RootNode []) [TagNode CommentTag ''comment'' (1, 0) [], ?w]
       = Inl (UnclosedTag ''while x'' (1, 13))"
    by simp
  have p: "pair_at ''{% comment %}{%bogus%}{% %}'' (ls_i ?st) = ''%}''" by (simp add: pair_at_def)
  have cl: "classify ''bogus'' = None" by code_simp
  have nl: "newline \<notin> set ''bogus''" by (simp add: newline_def)
  from inst [where ?st0.0 = ?st and body = "''bogus''" and ?l1.0 = "(1, 13)" and cs = "[]"
      and src = "''{% comment %}{%bogus%}{% %}''"] p cl nl
  have ls: "lex_step ''{% comment %}{%bogus%}{% %}'' ?st = Inl (UnknownTag ''bogus'')" by simp
  have pb: "parse ''{% comment %}{%bogus%}{% %}'' = Inl (UnknownTag ''bogus'')" by code_simp
  from inst [where ev = sample_ev and n = 0 and ?kids2.0 = "[?code]" and st = fresh]
  have e1: "exec_node sample_ev (Suc 0) (TagNode CommentTag ''comment'' (1, 0) [?code]) fresh
       = Some (Inr [], fresh)" by simp
  have e2: "exec_children sample_ev 3
        [TagNode CommentTag ''comment'' (1, 0) [?code], TextNode ''ab''] [] fresh
       = Some (Inr ''ab'', fresh)"
    by (simp add: numeral_3_eq_3)
  from lex_comment_scenario b1' b2 b3 ls pb e1 e2 show ?thesis by simp
qed

end
